theory Spec2Isabelle
  imports Main "HOL-Library.Multiset"
begin

section \<open>Data model\<close>

text \<open>
  The \<^verbatim>\<open>Todo\<close> type of \<^verbatim>\<open>actions.ts\<close>. The fields \<^verbatim>\<open>id\<close> and \<^verbatim>\<open>text\<close> are
  renamed (\<open>id\<close> is a HOL constant, \<open>text\<close> an Isar keyword). A JavaScript string is
  modelled as a list of code units below 256; \<^verbatim>\<open>position\<close> is a JavaScript number that
  always holds an integer (the column is \<^verbatim>\<open>integer not null\<close>, the code only subtracts 1
  or writes an array index), modelled as \<open>int\<close>. The column is a 32-bit integer: the
  store refuses an insert whose position is outside that range. The position written by
  a reorder is an array index, which leaves the range only for a list of more than
  \<open>2\<^sup>3\<^sup>1\<close> identifiers; that bound is not modelled.
\<close>

record todo =
  todo_id :: string
  todo_text :: string
  completed :: bool
  position :: int

text \<open>What \<^verbatim>\<open>formData.get("text")\<close> yields: \<^verbatim>\<open>null\<close>, a string, or a file.\<close>

datatype form_value = FNull | FString string | FFile

text \<open>The two replies of a server action: \<^verbatim>\<open>{ ok: true }\<close> and \<^verbatim>\<open>{ ok: false, error }\<close>.\<close>

datatype reply = Ok | Rejected string

text \<open>What a server action can throw.\<close>

datatype err =
    ConfigMissing
  | StoreUnavailable
  | NotFoundError
  | CapabilityUnavailable
  | ConstraintViolation
  | OutOfRange

section \<open>Strings\<close>

text \<open>
  \<^verbatim>\<open>String.prototype.trim\<close> on code units below 256: tab, line feed, vertical tab, form
  feed, carriage return, space and no-break space are stripped from both ends.
\<close>

definition is_space :: "char \<Rightarrow> bool" where
  "is_space c = (of_char c \<in> {9, 10, 11, 12, 13, 32, 160 :: nat})"

definition trim :: "string \<Rightarrow> string" where
  "trim s = rev (dropWhile is_space (rev (dropWhile is_space s)))"

text \<open>\<^verbatim>\<open>(formData.get("text") || "").toString().trim()\<close>, the first line of both
  \<^verbatim>\<open>onAdd\<close> and \<^verbatim>\<open>addTodo\<close>.\<close>

fun form_text :: "form_value \<Rightarrow> string" where
  "form_text FNull = trim ''''"
| "form_text (FString s) = trim s"
| "form_text FFile = trim ''[object File]''"

text \<open>\<^verbatim>\<open>id.startsWith('temp-')\<close>.\<close>

definition startsWith :: "string \<Rightarrow> string \<Rightarrow> bool" where
  "startsWith s p = (take (length p) s = p)"

text \<open>
  The regular expression of \<^verbatim>\<open>reorderTodos\<close>,
  \<^verbatim>\<open>^(?:[0-9a-fA-F]{8}-[0-9a-fA-F]{4}-[1-5][0-9a-fA-F]{3}-[89abAB][0-9a-fA-F]{3}-[0-9a-fA-F]{12})$\<close>,
  is anchored at both ends and has no repetition of variable length: it is a sequence of
  36 character classes, matched position by position.
\<close>

datatype cls = Hex | Dash | Version | Variant

fun in_cls :: "cls \<Rightarrow> char \<Rightarrow> bool" where
  "in_cls Hex c = (c \<in> set ''0123456789abcdefABCDEF'')"
| "in_cls Dash c = (c = CHR ''-'')"
| "in_cls Version c = (c \<in> set ''12345'')"
| "in_cls Variant c = (c \<in> set ''89abAB'')"

definition uuid_pattern :: "cls list" where
  "uuid_pattern =
     replicate 8 Hex @ [Dash] @ replicate 4 Hex @ [Dash] @
     [Version] @ replicate 3 Hex @ [Dash] @
     [Variant] @ replicate 3 Hex @ [Dash] @ replicate 12 Hex"

definition uuid_test :: "string \<Rightarrow> bool" where
  "uuid_test s = list_all2 in_cls uuid_pattern s"

text \<open>A template literal prints a non-negative integer in decimal.\<close>

definition digit_char :: "nat \<Rightarrow> char" where
  "digit_char d = ''0123456789'' ! d"

fun show_nat :: "nat \<Rightarrow> string" where
  "show_nat n = (if n < 10 then [digit_char n] else show_nat (n div 10) @ [digit_char (n mod 10)])"

declare show_nat.simps [simp del]

section \<open>The store\<close>

text \<open>
  The server process and the Supabase table behind it. \<open>cached\<close>, \<open>env_url\<close> and
  \<open>env_key\<close> are the module variable and the two environment variables of
  \<^verbatim>\<open>supabaseClient.ts\<close>. The table \<^verbatim>\<open>todos\<close> is \<open>rows\<close>, in storage order. The store is
  outside the repository: \<open>reachable\<close> says whether its queries succeed, \<open>rpc\<close> what a call
  of the optional function \<^verbatim>\<open>reorder_todos\<close> does, and \<open>calls\<close> records every request
  sent to it, oldest first.
\<close>

datatype rpc_status = RpcWorks | RpcMissing | RpcThrows

datatype store_call =
    Select
  | Insert todo
  | Rpc "string list"
  | UpdatePosition string int
  | SelectCompleted string
  | UpdateCompleted string bool
  | Delete string
  | DeleteCompleted

record server =
  cached :: bool
  env_url :: "string option"
  env_key :: "string option"
  rows :: "todo list"
  reachable :: bool
  rpc :: rpc_status
  calls :: "store_call list"

text \<open>\<^verbatim>\<open>!url\<close>: true of \<^verbatim>\<open>undefined\<close> and of the empty string.\<close>

fun falsy :: "string option \<Rightarrow> bool" where
  "falsy None = True"
| "falsy (Some s) = (s = [])"

definition getSupabase :: "server \<Rightarrow> err + server" where
  "getSupabase s =
     (if cached s then Inr s
      else if falsy (env_url s) \<or> falsy (env_key s) then Inl ConfigMissing
      else Inr (s\<lparr>cached := True\<rparr>))"

definition sent :: "store_call \<Rightarrow> server \<Rightarrow> server" where
  "sent c s = s\<lparr>calls := calls s @ [c]\<rparr>"

text \<open>
  The queries, as supabase-js answers them: each resolves to a pair of data and error and
  does not throw. \<^verbatim>\<open>order("position", { ascending: true })\<close> is a stable sort of the rows
  (the order of rows with equal positions is the store's choice; the model keeps
  storage order).
\<close>

definition db_select :: "server \<Rightarrow> (err + todo list) \<times> server" where
  "db_select s =
     (if reachable s then (Inr (sort_key position (rows s)), sent Select s)
      else (Inl StoreUnavailable, sent Select s))"

text \<open>\<^verbatim>\<open>position integer\<close>: the values a 32-bit integer column holds.\<close>

definition int32 :: "int \<Rightarrow> bool" where
  "int32 p = (- 2147483648 \<le> p \<and> p \<le> 2147483647)"

text \<open>
  An insert is refused when the position does not fit the column (\<^verbatim>\<open>integer out of
  range\<close>), and, \<^verbatim>\<open>id uuid primary key\<close>, when a row with the same id exists.
\<close>

definition db_insert :: "todo \<Rightarrow> server \<Rightarrow> err option \<times> server" where
  "db_insert t s =
     (if \<not> reachable s then (Some StoreUnavailable, sent (Insert t) s)
      else if \<not> int32 (position t) then (Some OutOfRange, sent (Insert t) s)
      else if todo_id t \<in> set (map todo_id (rows s)) then (Some ConstraintViolation, sent (Insert t) s)
      else (None, sent (Insert t) (s\<lparr>rows := rows s @ [t]\<rparr>)))"

definition set_position :: "string \<Rightarrow> int \<Rightarrow> todo list \<Rightarrow> todo list" where
  "set_position i p ts = map (\<lambda>t. if todo_id t = i then t\<lparr>position := p\<rparr> else t) ts"

definition db_update_position :: "string \<Rightarrow> int \<Rightarrow> server \<Rightarrow> err option \<times> server" where
  "db_update_position i p s =
     (if reachable s then (None, sent (UpdatePosition i p) (s\<lparr>rows := set_position i p (rows s)\<rparr>))
      else (Some StoreUnavailable, sent (UpdatePosition i p) s))"

text \<open>
  The SQL function \<^verbatim>\<open>reorder_todos(ids uuid[])\<close> of the README: a loop over the array
  with a counter from 0, one \<^verbatim>\<open>update ... set position = i where id = id\<close> per element.
\<close>

definition reorder_sql :: "string list \<Rightarrow> todo list \<Rightarrow> todo list" where
  "reorder_sql ids ts = fold (\<lambda>(i, x). set_position x (int i)) (enumerate 0 ids) ts"

text \<open>The three ways the call \<^verbatim>\<open>supabase.rpc("reorder_todos", { ids })\<close> can end.\<close>

datatype rpc_result = Threw | Returned "err option"

definition db_rpc :: "string list \<Rightarrow> server \<Rightarrow> rpc_result \<times> server" where
  "db_rpc ids s =
     (case rpc s of
        RpcThrows \<Rightarrow> (Threw, sent (Rpc ids) s)
      | RpcMissing \<Rightarrow> (Returned (Some CapabilityUnavailable), sent (Rpc ids) s)
      | RpcWorks \<Rightarrow>
          (if reachable s then (Returned None, sent (Rpc ids) (s\<lparr>rows := reorder_sql ids (rows s)\<rparr>))
           else (Returned (Some StoreUnavailable), sent (Rpc ids) s)))"

text \<open>\<^verbatim>\<open>select("completed").eq("id", id).single()\<close>: an error unless exactly one row matches.\<close>

definition db_select_completed :: "string \<Rightarrow> server \<Rightarrow> (err + bool) \<times> server" where
  "db_select_completed i s =
     (if \<not> reachable s then (Inl StoreUnavailable, sent (SelectCompleted i) s)
      else (case filter (\<lambda>t. todo_id t = i) (rows s) of
              [t] \<Rightarrow> (Inr (completed t), sent (SelectCompleted i) s)
            | _ \<Rightarrow> (Inl NotFoundError, sent (SelectCompleted i) s)))"

definition db_update_completed :: "string \<Rightarrow> bool \<Rightarrow> server \<Rightarrow> err option \<times> server" where
  "db_update_completed i b s =
     (if reachable s
      then (None, sent (UpdateCompleted i b)
                    (s\<lparr>rows := map (\<lambda>t. if todo_id t = i then t\<lparr>completed := b\<rparr> else t) (rows s)\<rparr>))
      else (Some StoreUnavailable, sent (UpdateCompleted i b) s))"

definition db_delete :: "string \<Rightarrow> server \<Rightarrow> err option \<times> server" where
  "db_delete i s =
     (if reachable s then (None, sent (Delete i) (s\<lparr>rows := filter (\<lambda>t. todo_id t \<noteq> i) (rows s)\<rparr>))
      else (Some StoreUnavailable, sent (Delete i) s))"

definition db_delete_completed :: "server \<Rightarrow> err option \<times> server" where
  "db_delete_completed s =
     (if reachable s then (None, sent DeleteCompleted (s\<lparr>rows := filter (\<lambda>t. \<not> completed t) (rows s)\<rparr>))
      else (Some StoreUnavailable, sent DeleteCompleted s))"

section \<open>Server actions (\<^verbatim>\<open>actions.ts\<close>)\<close>

text \<open>
  An action returns what it returns or throws (\<open>Inl\<close>), and the server as it leaves it.
  \<^verbatim>\<open>revalidatePath("/")\<close> touches only the page cache of the framework and is left out.
\<close>

definition fetchTodos :: "server \<Rightarrow> (err + todo list) \<times> server" where
  "fetchTodos s =
     (case getSupabase s of
        Inl e \<Rightarrow> (Inl e, s)
      | Inr s1 \<Rightarrow>
          (case db_select s1 of
             (Inl e, s2) \<Rightarrow> (Inl e, s2)
           | (Inr d, s2) \<Rightarrow> (Inr d, s2)))"

definition readTodos :: "server \<Rightarrow> (err + todo list) \<times> server" where
  "readTodos s = fetchTodos s"

text \<open>\<^verbatim>\<open>todos.length ? Math.min(...todos.map(t => t.position)) : 0\<close>.\<close>

definition minPos_server :: "todo list \<Rightarrow> int" where
  "minPos_server todos =
     (case map position todos of [] \<Rightarrow> 0 | p # ps \<Rightarrow> fold min ps p)"

text \<open>\<open>newId\<close> is the value of \<^verbatim>\<open>crypto.randomUUID()\<close>.\<close>

definition addTodo :: "form_value \<Rightarrow> string \<Rightarrow> server \<Rightarrow> (err + reply) \<times> server" where
  "addTodo formData newId s =
     (let txt = form_text formData in
      if txt = [] then (Inr (Rejected ''Empty''), s)
      else
        (case fetchTodos s of
           (Inl e, s1) \<Rightarrow> (Inl e, s1)
         | (Inr todos, s1) \<Rightarrow>
             (let minPos = minPos_server todos;
                  newPos = minPos - 1
              in (case getSupabase s1 of
                    Inl e \<Rightarrow> (Inl e, s1)
                  | Inr s2 \<Rightarrow>
                      (case db_insert \<lparr>todo_id = newId, todo_text = txt,
                                        completed = False, position = newPos\<rparr> s2 of
                         (Some e, s3) \<Rightarrow> (Inl e, s3)
                       | (None, s3) \<Rightarrow> (Inr Ok, s3))))))"

text \<open>
  The manual updates of \<^verbatim>\<open>reorderTodos\<close>: one update per element of \<^verbatim>\<open>uuidIds\<close>, with
  its index as position. The requests are sent in array order and their answers are not
  inspected (\<^verbatim>\<open>Promise.all\<close> of results that carry their error as a field).
\<close>

definition manual_updates :: "string list \<Rightarrow> server \<Rightarrow> server" where
  "manual_updates uuidIds s =
     fold (\<lambda>(index, i) s'. snd (db_update_position i (int index) s')) (enumerate 0 uuidIds) s"

definition reorderTodos :: "string list \<Rightarrow> server \<Rightarrow> (err + reply) \<times> server" where
  "reorderTodos newOrderIds s =
     (case getSupabase s of
        Inl e \<Rightarrow> (Inl e, s)
      | Inr s1 \<Rightarrow>
          (let uuidIds = filter uuid_test newOrderIds in
           if length uuidIds = 0 then (Inr Ok, s1)
           else
             (case db_rpc uuidIds s1 of
                (Returned None, s2) \<Rightarrow> (Inr Ok, s2)
              | (_, s2) \<Rightarrow> (Inr Ok, manual_updates uuidIds s2))))"

definition toggleTodo :: "string \<Rightarrow> server \<Rightarrow> (err + reply) \<times> server" where
  "toggleTodo i s =
     (case getSupabase s of
        Inl e \<Rightarrow> (Inl e, s)
      | Inr s1 \<Rightarrow>
          (case db_select_completed i s1 of
             (Inl fetchErr, s2) \<Rightarrow> (Inl fetchErr, s2)
           | (Inr c, s2) \<Rightarrow>
               (case getSupabase s2 of
                  Inl e \<Rightarrow> (Inl e, s2)
                | Inr s3 \<Rightarrow>
                    (case db_update_completed i (\<not> c) s3 of
                       (Some e, s4) \<Rightarrow> (Inl e, s4)
                     | (None, s4) \<Rightarrow> (Inr Ok, s4)))))"

definition deleteTodo :: "string \<Rightarrow> server \<Rightarrow> (err + reply) \<times> server" where
  "deleteTodo i s =
     (case getSupabase s of
        Inl e \<Rightarrow> (Inl e, s)
      | Inr s1 \<Rightarrow>
          (case db_delete i s1 of
             (Some e, s2) \<Rightarrow> (Inl e, s2)
           | (None, s2) \<Rightarrow> (Inr Ok, s2)))"

definition clearCompleted :: "server \<Rightarrow> (err + reply) \<times> server" where
  "clearCompleted s =
     (case getSupabase s of
        Inl e \<Rightarrow> (Inl e, s)
      | Inr s1 \<Rightarrow>
          (case db_delete_completed s1 of
             (Some e, s2) \<Rightarrow> (Inl e, s2)
           | (None, s2) \<Rightarrow> (Inr Ok, s2)))"

section \<open>The client (\<^verbatim>\<open>TodoApp.tsx\<close>)\<close>

text \<open>
  The component's list is \<^verbatim>\<open>optimisticTodos\<close>; a handler reads it, hands the next list
  to \<^verbatim>\<open>setOptimisticTodos\<close> and calls a server action without awaiting it. The model of
  a handler returns the next list and the calls it started. A call carries \<open>caught\<close>:
  whether the handler attached \<^verbatim>\<open>.catch\<close> to the promise of the action.
\<close>

datatype action =
    AddTodo form_value
  | ReorderTodos "string list"
  | ToggleTodo string
  | DeleteTodo string
  | ClearCompleted

record dispatch =
  action :: action
  caught :: bool

type_synonym handled = "todo list \<times> dispatch list"

text \<open>
  \<^verbatim>\<open>optimisticTodos.length ? Math.min(...optimisticTodos.map(t => t.position ?? 0)) : 0\<close>;
  \<^verbatim>\<open>position\<close> is a number in every \<^verbatim>\<open>Todo\<close>, so \<^verbatim>\<open>?? 0\<close> never takes its right side.
\<close>

definition minPos_client :: "todo list \<Rightarrow> int" where
  "minPos_client optimisticTodos =
     (case map (\<lambda>t. position t) optimisticTodos of [] \<Rightarrow> 0 | p # ps \<Rightarrow> fold min ps p)"

text \<open>\<open>now\<close> is the value of \<^verbatim>\<open>Date.now()\<close>, the milliseconds since the epoch.\<close>

definition temp_id :: "nat \<Rightarrow> string" where
  "temp_id now = ''temp-'' @ show_nat now"

definition onAdd :: "form_value \<Rightarrow> nat \<Rightarrow> todo list \<Rightarrow> handled" where
  "onAdd formData now optimisticTodos =
     (let txt = form_text formData in
      if txt = [] then (optimisticTodos, [])
      else
        (let minPos = minPos_client optimisticTodos;
             temp = \<lparr>todo_id = temp_id now, todo_text = txt,
                     completed = False, position = minPos - 1\<rparr>
         in (temp # optimisticTodos, [\<lparr>action = AddTodo formData, caught = True\<rparr>])))"

text \<open>\<^verbatim>\<open>findIndex\<close>, with \<open>None\<close> for \<^verbatim>\<open>-1\<close>.\<close>

fun findIndex :: "('a \<Rightarrow> bool) \<Rightarrow> 'a list \<Rightarrow> nat option" where
  "findIndex P [] = None"
| "findIndex P (x # xs) =
     (if P x then Some 0 else (case findIndex P xs of None \<Rightarrow> None | Some k \<Rightarrow> Some (Suc k)))"

text \<open>
  \<^verbatim>\<open>splice(start, 1)\<close> and \<^verbatim>\<open>splice(start, 0, item)\<close> for a start that is not negative;
  a start beyond the end is the end.
\<close>

definition splice_out :: "nat \<Rightarrow> 'a list \<Rightarrow> 'a list \<times> 'a list" where
  "splice_out start xs = (take 1 (drop start xs), take start xs @ drop (Suc start) xs)"

definition splice_in :: "nat \<Rightarrow> 'a \<Rightarrow> 'a list \<Rightarrow> 'a list" where
  "splice_in start x xs = take start xs @ [x] @ drop start xs"

text \<open>\<^verbatim>\<open>current.map(t => t.id).filter(id => !id.startsWith('temp-'))\<close>.\<close>

definition stableIds :: "todo list \<Rightarrow> string list" where
  "stableIds current = filter (\<lambda>i. \<not> startsWith i ''temp-'') (map todo_id current)"

text \<open>\<^verbatim>\<open>queueMicrotask(() => { if (stableIds.length) reorderTodos(stableIds); })\<close>.\<close>

definition persist_order :: "string list \<Rightarrow> dispatch list" where
  "persist_order ids =
     (if length ids \<noteq> 0 then [\<lparr>action = ReorderTodos ids, caught = False\<rparr>] else [])"

definition reorderTodosById :: "string \<Rightarrow> string \<Rightarrow> todo list \<Rightarrow> handled" where
  "reorderTodosById draggedId targetId optimisticTodos =
     (case (findIndex (\<lambda>t. todo_id t = draggedId) optimisticTodos,
            findIndex (\<lambda>t. todo_id t = targetId) optimisticTodos) of
        (Some fromIdx, Some toIdx) \<Rightarrow>
          (case splice_out fromIdx optimisticTodos of
             (moved # _, current) \<Rightarrow>
               (let current' = splice_in toIdx moved current
                in (current', persist_order (stableIds current')))
           | ([], _) \<Rightarrow> (optimisticTodos, []))
      | _ \<Rightarrow> (optimisticTodos, []))"

text \<open>\<^verbatim>\<open>handleDrop\<close>: \<open>draggedId\<close> is the text of the drag's data transfer.\<close>

definition handleDrop :: "string \<Rightarrow> string \<Rightarrow> todo list \<Rightarrow> handled" where
  "handleDrop draggedId targetId optimisticTodos =
     (if draggedId = [] \<or> draggedId = targetId then (optimisticTodos, [])
      else reorderTodosById draggedId targetId optimisticTodos)"

text \<open>
  \<^verbatim>\<open>handleTouchEnd\<close>, for the two indices kept in \<^verbatim>\<open>touchStartRef\<close> (\<open>None\<close>: the ref is
  null); they are indices of rendered items and so not negative. The elements and their
  styles are left out. The result is \<open>None\<close> when nothing was spliced out: \<^verbatim>\<open>moved\<close>
  is then \<^verbatim>\<open>undefined\<close> and \<^verbatim>\<open>t.id\<close> throws a TypeError.
\<close>

definition handleTouchEnd :: "(nat \<times> nat) option \<Rightarrow> todo list \<Rightarrow> handled option" where
  "handleTouchEnd touchStart optimisticTodos =
     (case touchStart of
        None \<Rightarrow> Some (optimisticTodos, [])
      | Some (initialIndex, currentIndex) \<Rightarrow>
          (if initialIndex \<noteq> currentIndex then
             (case splice_out initialIndex optimisticTodos of
                (moved # _, current) \<Rightarrow>
                  (let current' = splice_in currentIndex moved current
                   in Some (current', persist_order (stableIds current')))
              | ([], _) \<Rightarrow> None)
           else Some (optimisticTodos, [])))"

definition onToggle :: "string \<Rightarrow> todo list \<Rightarrow> handled" where
  "onToggle i optimisticTodos =
     (map (\<lambda>t. if todo_id t = i then t\<lparr>completed := \<not> completed t\<rparr> else t) optimisticTodos,
      [\<lparr>action = ToggleTodo i, caught = False\<rparr>])"

definition onDelete :: "string \<Rightarrow> todo list \<Rightarrow> handled" where
  "onDelete i optimisticTodos =
     (filter (\<lambda>t. todo_id t \<noteq> i) optimisticTodos,
      [\<lparr>action = DeleteTodo i, caught = False\<rparr>])"

definition onClearCompleted :: "todo list \<Rightarrow> handled" where
  "onClearCompleted optimisticTodos =
     (filter (\<lambda>t. \<not> completed t) optimisticTodos,
      [\<lparr>action = ClearCompleted, caught = False\<rparr>])"

subsection \<open>A started call, run and settled\<close>

text \<open>The server action a call names; \<open>newId\<close> is used by \<^verbatim>\<open>addTodo\<close> only.\<close>

fun run_action :: "action \<Rightarrow> string \<Rightarrow> server \<Rightarrow> (err + reply) \<times> server" where
  "run_action (AddTodo formData) newId s = addTodo formData newId s"
| "run_action (ReorderTodos ids) newId s = reorderTodos ids s"
| "run_action (ToggleTodo i) newId s = toggleTodo i s"
| "run_action (DeleteTodo i) newId s = deleteTodo i s"
| "run_action ClearCompleted newId s = clearCompleted s"

text \<open>
  What the page sees when the promise of a call settles: nothing when it fulfils, nothing
  when it rejects into a \<^verbatim>\<open>.catch\<close>, and otherwise a rejection that no handler takes.
  In no case is \<^verbatim>\<open>optimisticTodos\<close> written: no handler of the component runs.
\<close>

datatype settled = Quiet | UnhandledRejection err

definition settle :: "dispatch \<Rightarrow> err + reply \<Rightarrow> settled" where
  "settle d r =
     (case r of
        Inr _ \<Rightarrow> Quiet
      | Inl e \<Rightarrow> (if caught d then Quiet else UnhandledRejection e))"

text \<open>All calls of a handler, run in the order they were started.\<close>

fun run_all :: "dispatch list \<Rightarrow> string \<Rightarrow> server \<Rightarrow> settled list \<times> server" where
  "run_all [] newId s = ([], s)"
| "run_all (d # ds) newId s =
     (case run_action (action d) newId s of
        (r, s1) \<Rightarrow> (case run_all ds newId s1 of (es, s2) \<Rightarrow> (settle d r # es, s2)))"

section \<open>Vocabulary of the statements\<close>

text \<open>The server can build its client: one exists already, or both variables are set.\<close>

definition configured :: "server \<Rightarrow> bool" where
  "configured s = (cached s \<or> \<not> falsy (env_url s) \<and> \<not> falsy (env_key s))"

text \<open>
  The insert position in the words of the specification: the minimum existing position,
  or 0 when the list is empty, minus 1.
\<close>

definition spec_insert_position :: "int list \<Rightarrow> int" where
  "spec_insert_position ps = (if ps = [] then 0 else Min (set ps)) - 1"

text \<open>Three durable identifiers, an item and a server to run the scenarios on.\<close>

definition id_a :: string where "id_a = ''0a000000-0000-4000-8000-00000000000a''"

definition id_b :: string where "id_b = ''0b000000-0000-4000-8000-00000000000b''"

definition id_c :: string where "id_c = ''0c000000-0000-4000-8000-00000000000c''"

definition item :: "string \<Rightarrow> int \<Rightarrow> todo" where
  "item i p = \<lparr>todo_id = i, todo_text = ''x'', completed = False, position = p\<rparr>"

definition server_of :: "todo list \<Rightarrow> rpc_status \<Rightarrow> server" where
  "server_of ts r = \<lparr>cached = False, env_url = Some ''https://db'', env_key = Some ''key'',
     rows = ts, reachable = True, rpc = r, calls = []\<rparr>"

text \<open>The place of the first occurrence of an element in a list.\<close>

primrec index_of :: "'a \<Rightarrow> 'a list \<Rightarrow> nat" where
  "index_of x [] = 0"
| "index_of x (y # ys) = (if x = y then 0 else Suc (index_of x ys))"

text \<open>The per-item writes of a reorder: the \<open>k\<close>-th identifier with position \<open>k\<close>.\<close>

definition uploads :: "string list \<Rightarrow> store_call list" where
  "uploads ids = map (\<lambda>k. UpdatePosition (ids ! k) (int k)) [0..<length ids]"

text \<open>The identifier and position of every per-item position write in a log.\<close>

fun position_writes :: "store_call list \<Rightarrow> (string \<times> int) list" where
  "position_writes [] = []"
| "position_writes (UpdatePosition i p # cs) = (i, p) # position_writes cs"
| "position_writes (c # cs) = position_writes cs"

section \<open>Basic facts\<close>

lemma getSupabase_configured: "configured s \<Longrightarrow> getSupabase s = Inr (s\<lparr>cached := True\<rparr>)"
  by (auto simp: configured_def getSupabase_def)

lemma minPos_server_Min: "todos \<noteq> [] \<Longrightarrow> minPos_server todos = Min (position ` set todos)"
  unfolding minPos_server_def
  by (cases todos) (simp_all add: Min.set_eq_fold [symmetric] del: fold_simps)

lemma minPos_client_server: "minPos_client todos = minPos_server todos"
  by (simp add: minPos_client_def minPos_server_def)

lemma minPos_server_sorted:
  "minPos_server (sort_key position todos) = minPos_server todos"
proof (cases "todos = []")
  case True
  then show ?thesis by simp
next
  case False
  then have "set (sort_key position todos) \<noteq> {}" by simp
  then have "sort_key position todos \<noteq> []" by (simp del: set_sort)
  with False show ?thesis by (simp add: minPos_server_Min)
qed

lemma minPos_server_le: "t \<in> set todos \<Longrightarrow> minPos_server todos \<le> position t"
  by (cases "todos = []") (auto simp: minPos_server_Min)

lemma foldr_insort_least:
  "\<forall>y\<in>set xs. f x < f y \<Longrightarrow> foldr (insort_key f) xs [x] = x # foldr (insort_key f) xs []"
  by (induction xs) (auto simp: not_le)

lemma sort_key_snoc_least:
  "\<forall>y\<in>set xs. f x < f y \<Longrightarrow> sort_key f (xs @ [x]) = x # sort_key f xs"
  by (simp add: sort_key_def foldr_insort_least)

lemma fetchTodos_ok:
  "configured s \<Longrightarrow> reachable s \<Longrightarrow>
   fetchTodos s = (Inr (sort_key position (rows s)), sent Select (s\<lparr>cached := True\<rparr>))"
  by (simp add: fetchTodos_def getSupabase_configured db_select_def sent_def)

lemma getSupabase_cached: "cached s \<Longrightarrow> getSupabase s = Inr s"
  by (simp add: getSupabase_def)

lemma configured_sent: "configured (sent c s) = configured s"
  by (simp add: configured_def sent_def)

lemma configured_cached: "configured (s\<lparr>cached := True\<rparr>)"
  by (simp add: configured_def)

lemma addTodo_out_of_range:
  assumes "configured s" "reachable s" "form_text formData \<noteq> []"
    and "\<not> int32 (minPos_server (sort_key position (rows s)) - 1)"
  shows "addTodo formData newId s =
     (Inl OutOfRange,
      sent (Insert \<lparr>todo_id = newId, todo_text = form_text formData, completed = False,
                    position = minPos_server (sort_key position (rows s)) - 1\<rparr>)
        (sent Select (s\<lparr>cached := True\<rparr>)))"
  using assms
  by (simp add: addTodo_def fetchTodos_ok Let_def getSupabase_cached db_insert_def sent_def)

lemma addTodo_ok:
  assumes "configured s" "reachable s" "form_text formData \<noteq> []"
    and "newId \<notin> todo_id ` set (rows s)"
    and "int32 (minPos_server (sort_key position (rows s)) - 1)"
  shows "addTodo formData newId s =
     (Inr Ok,
      sent (Insert \<lparr>todo_id = newId, todo_text = form_text formData, completed = False,
                    position = minPos_server (sort_key position (rows s)) - 1\<rparr>)
        (sent Select (s\<lparr>cached := True,
           rows := rows s @ [\<lparr>todo_id = newId, todo_text = form_text formData, completed = False,
                    position = minPos_server (sort_key position (rows s)) - 1\<rparr>]\<rparr>)))"
  using assms
  by (simp add: addTodo_def fetchTodos_ok Let_def getSupabase_cached db_insert_def sent_def)

lemma addTodo_blank: "form_text formData = [] \<Longrightarrow> addTodo formData newId s = (Inr (Rejected ''Empty''), s)"
  by (simp add: addTodo_def)

lemma onAdd_blank: "form_text formData = [] \<Longrightarrow> onAdd formData now todos = (todos, [])"
  by (simp add: onAdd_def)

lemma onAdd_ok: "form_text formData \<noteq> [] \<Longrightarrow> onAdd formData now todos =
   (\<lparr>todo_id = temp_id now, todo_text = form_text formData, completed = False,
      position = minPos_client todos - 1\<rparr> # todos, [\<lparr>action = AddTodo formData, caught = True\<rparr>])"
  by (simp add: onAdd_def Let_def)

lemma trim_empty_iff: "trim s = [] \<longleftrightarrow> (\<forall>c\<in>set s. is_space c)"
proof
  assume "trim s = []"
  then have all: "\<forall>x\<in>set (dropWhile is_space s). is_space x"
    by (simp add: trim_def dropWhile_eq_Nil_conv)
  have "dropWhile is_space s = []"
  proof (rule ccontr)
    assume ne: "dropWhile is_space s \<noteq> []"
    then have "\<not> is_space (hd (dropWhile is_space s))" by (rule hd_dropWhile)
    moreover have "hd (dropWhile is_space s) \<in> set (dropWhile is_space s)" using ne by simp
    ultimately show False using all by blast
  qed
  then show "\<forall>c\<in>set s. is_space c" by (simp add: dropWhile_eq_Nil_conv)
next
  assume "\<forall>c\<in>set s. is_space c"
  then have d: "dropWhile is_space s = []" by (simp add: dropWhile_eq_Nil_conv)
  show "trim s = []" unfolding trim_def d by simp
qed

lemma uuid_a: "uuid_test id_a" and uuid_b: "uuid_test id_b" and uuid_c: "uuid_test id_c"
  by code_simp+

section \<open>Insert positions\<close>

text \<open>
  C4. On a list that is not empty the position given to a new item is strictly below every
  position present. For the durable path: \<^verbatim>\<open>addTodo\<close> reads the list and sends one
  insert, whose row has that position. When the position fits the 32-bit column the row
  is appended, the existing rows are left as they are, and the next listing shows the
  new item first; when it does not (the minimum present is the least value of the
  column) the store refuses the insert, \<^verbatim>\<open>addTodo\<close> throws and no item is inserted. For
  the local path: the placeholder that \<^verbatim>\<open>onAdd\<close> prepends is strictly below every
  position of the list. With the positions 5 and 10 present the new position is 4. The
  server is taken to be configured and the store reachable, the text not blank and the
  fresh identifier unused.
\<close>

theorem insert_position_below_minimum:
  assumes "configured s" and "reachable s" and "rows s \<noteq> []"
    and "form_text formData \<noteq> []" and "newId \<notin> todo_id ` set (rows s)"
    and "optimisticTodos \<noteq> []"
  shows "\<exists>new temp.
      todo_id new = newId \<and> todo_text new = form_text formData \<and> \<not> completed new \<and>
      (\<forall>t\<in>set (rows s). position new < position t) \<and>
      calls (snd (addTodo formData newId s)) = calls s @ [Select, Insert new] \<and>
      (int32 (position new) \<longrightarrow>
         (\<exists>s'. addTodo formData newId s = (Inr Ok, s') \<and> rows s' = rows s @ [new] \<and>
               fst (fetchTodos s') = Inr (new # sort_key position (rows s)))) \<and>
      (\<not> int32 (position new) \<longrightarrow>
         (\<exists>s'. addTodo formData newId s = (Inl OutOfRange, s') \<and> rows s' = rows s)) \<and>
      (position ` set (rows s) = {5, 10} \<longrightarrow> position new = 4) \<and>
      fst (onAdd formData now optimisticTodos) = temp # optimisticTodos \<and>
      (\<forall>t\<in>set optimisticTodos. position temp < position t)"
proof -
  define p where "p = minPos_server (sort_key position (rows s)) - 1"
  define new where "new = \<lparr>todo_id = newId, todo_text = form_text formData,
                            completed = False, position = p\<rparr>"
  define temp where "temp = \<lparr>todo_id = temp_id now, todo_text = form_text formData,
                            completed = False, position = minPos_client optimisticTodos - 1\<rparr>"
  have pn: "position new = p" by (simp add: new_def)
  have pmin: "p = Min (position ` set (rows s)) - 1"
    using assms(3) by (simp add: p_def minPos_server_sorted minPos_server_Min)
  have below: "\<forall>t\<in>set (rows s). position new < position t"
  proof
    fix t assume "t \<in> set (rows s)"
    then have "Min (position ` set (rows s)) \<le> position t" by simp
    then show "position new < position t" by (simp add: new_def pmin)
  qed
  have ok: "int32 (position new) \<longrightarrow>
         (\<exists>s'. addTodo formData newId s = (Inr Ok, s') \<and> rows s' = rows s @ [new] \<and>
               fst (fetchTodos s') = Inr (new # sort_key position (rows s)))"
  proof
    assume "int32 (position new)"
    then have r: "int32 (minPos_server (sort_key position (rows s)) - 1)"
      by (simp add: pn p_def)
    define s' where "s' = sent (Insert new) (sent Select (s\<lparr>cached := True, rows := rows s @ [new]\<rparr>))"
    have run: "addTodo formData newId s = (Inr Ok, s')"
      using addTodo_ok [OF assms(1,2,4,5) r] by (simp add: s'_def new_def p_def)
    have rs: "rows s' = rows s @ [new]" by (simp add: s'_def sent_def)
    have "configured s'" "reachable s'"
      using assms(2) by (simp_all add: s'_def sent_def configured_def)
    then have "fst (fetchTodos s') = Inr (sort_key position (rows s'))"
      by (simp add: fetchTodos_ok)
    then have "fst (fetchTodos s') = Inr (new # sort_key position (rows s))"
      using below by (simp add: rs sort_key_snoc_least)
    with run rs show "\<exists>s'. addTodo formData newId s = (Inr Ok, s') \<and> rows s' = rows s @ [new] \<and>
               fst (fetchTodos s') = Inr (new # sort_key position (rows s))"
      by blast
  qed
  have ko: "\<not> int32 (position new) \<longrightarrow>
         (\<exists>s'. addTodo formData newId s = (Inl OutOfRange, s') \<and> rows s' = rows s)"
  proof
    assume "\<not> int32 (position new)"
    then have r: "\<not> int32 (minPos_server (sort_key position (rows s)) - 1)"
      by (simp add: pn p_def)
    show "\<exists>s'. addTodo formData newId s = (Inl OutOfRange, s') \<and> rows s' = rows s"
      using addTodo_out_of_range [OF assms(1,2,4) r] by (simp add: sent_def)
  qed
  have log: "calls (snd (addTodo formData newId s)) = calls s @ [Select, Insert new]"
  proof (cases "int32 (minPos_server (sort_key position (rows s)) - 1)")
    case True
    show ?thesis
      using addTodo_ok [OF assms(1,2,4,5) True] by (simp add: sent_def new_def p_def)
  next
    case False
    show ?thesis
      using addTodo_out_of_range [OF assms(1,2,4) False] by (simp add: sent_def new_def p_def)
  qed
  have scen: "position ` set (rows s) = {5, 10} \<longrightarrow> position new = 4"
    by (simp add: new_def pmin)
  have view: "fst (onAdd formData now optimisticTodos) = temp # optimisticTodos"
    using assms(4) by (simp add: onAdd_ok temp_def)
  have vbelow: "\<forall>t\<in>set optimisticTodos. position temp < position t"
  proof
    fix t assume "t \<in> set optimisticTodos"
    then have "minPos_server optimisticTodos \<le> position t" by (rule minPos_server_le)
    then show "position temp < position t" by (simp add: temp_def minPos_client_server)
  qed
  have "todo_id new = newId" "todo_text new = form_text formData" "\<not> completed new"
    by (simp_all add: new_def)
  with below log ok ko scen view vbelow show ?thesis by blast
qed

theorem insert_position_below_minimum_witness:
  "configured (server_of [item id_a 5, item id_b 10] RpcMissing) \<and>
   reachable (server_of [item id_a 5, item id_b 10] RpcMissing) \<and>
   rows (server_of [item id_a 5, item id_b 10] RpcMissing) \<noteq> [] \<and>
   form_text (FString ''buy milk'') \<noteq> [] \<and>
   id_c \<notin> todo_id ` set (rows (server_of [item id_a 5, item id_b 10] RpcMissing)) \<and>
   [item id_a 5, item id_b 10] \<noteq> [] \<and>
   (\<exists>new s' temp.
      addTodo (FString ''buy milk'') id_c (server_of [item id_a 5, item id_b 10] RpcMissing)
        = (Inr Ok, s') \<and>
      rows s' = [item id_a 5, item id_b 10, new] \<and> position new = 4 \<and>
      fst (fetchTodos s') = Inr [new, item id_a 5, item id_b 10] \<and>
      fst (onAdd (FString ''buy milk'') 1700000000000 [item id_a 5, item id_b 10])
        = [temp, item id_a 5, item id_b 10]) \<and>
   configured (server_of [item id_a (- 2147483648)] RpcMissing) \<and>
   reachable (server_of [item id_a (- 2147483648)] RpcMissing) \<and>
   rows (server_of [item id_a (- 2147483648)] RpcMissing) \<noteq> [] \<and>
   id_c \<notin> todo_id ` set (rows (server_of [item id_a (- 2147483648)] RpcMissing)) \<and>
   (\<exists>s'. addTodo (FString ''buy milk'') id_c (server_of [item id_a (- 2147483648)] RpcMissing)
        = (Inl OutOfRange, s') \<and>
      rows s' = [item id_a (- 2147483648)])"
proof -
  let ?s = "server_of [item id_a 5, item id_b 10] RpcMissing"
  have h1: "configured ?s" by (simp add: configured_def server_of_def)
  have h2: "reachable ?s" by (simp add: server_of_def)
  have h3: "rows ?s \<noteq> []" by (simp add: server_of_def)
  have h4: "form_text (FString ''buy milk'') \<noteq> []" by (simp add: trim_def is_space_def)
  have h5: "id_c \<notin> todo_id ` set (rows ?s)"
    by (simp add: server_of_def item_def id_a_def id_b_def id_c_def)
  have h6: "[item id_a 5, item id_b 10] \<noteq> []" by simp
  have r: "rows ?s = [item id_a 5, item id_b 10]" by (simp add: server_of_def)
  have ps: "position ` set (rows ?s) = {5, 10}" by (simp add: server_of_def item_def)
  have srt: "sort_key position (rows ?s) = [item id_a 5, item id_b 10]"
    by (simp add: server_of_def item_def)
  from insert_position_below_minimum [OF h1 h2 h3 h4 h5 h6, of 1700000000000]
  obtain new temp where
    a: "int32 (position new) \<longrightarrow>
         (\<exists>s'. addTodo (FString ''buy milk'') id_c ?s = (Inr Ok, s') \<and> rows s' = rows ?s @ [new] \<and>
               fst (fetchTodos s') = Inr (new # sort_key position (rows ?s)))"
    and b: "position ` set (rows ?s) = {5, 10} \<longrightarrow> position new = 4"
    and c: "fst (onAdd (FString ''buy milk'') 1700000000000 [item id_a 5, item id_b 10])
       = temp # [item id_a 5, item id_b 10]"
    by blast
  from b ps have p4: "position new = 4" by simp
  then have "int32 (position new)" by (simp add: int32_def)
  with a p4 c have part1: "\<exists>new s' temp.
      addTodo (FString ''buy milk'') id_c ?s = (Inr Ok, s') \<and>
      rows s' = [item id_a 5, item id_b 10, new] \<and> position new = 4 \<and>
      fst (fetchTodos s') = Inr [new, item id_a 5, item id_b 10] \<and>
      fst (onAdd (FString ''buy milk'') 1700000000000 [item id_a 5, item id_b 10])
        = [temp, item id_a 5, item id_b 10]"
    unfolding srt unfolding r by auto
  define m where "m = server_of [item id_a (- 2147483648)] RpcMissing"
  have m1: "configured m" by (simp add: m_def configured_def server_of_def)
  have m2: "reachable m" by (simp add: m_def server_of_def)
  have m3: "rows m \<noteq> []" by (simp add: m_def server_of_def)
  have m5: "id_c \<notin> todo_id ` set (rows m)"
    by (simp add: m_def server_of_def item_def id_a_def id_c_def)
  have rm: "rows m = [item id_a (- 2147483648)]" by (simp add: m_def server_of_def)
  have pm: "position (item id_a (- 2147483648)) = - 2147483648" by (simp add: item_def)
  from insert_position_below_minimum [OF m1 m2 m3 h4 m5 h6, of 1700000000000]
  obtain new2 :: todo where
    lt: "\<forall>t\<in>set (rows m). position new2 < position t"
    and d: "\<not> int32 (position new2) \<longrightarrow>
         (\<exists>s'. addTodo (FString ''buy milk'') id_c m = (Inl OutOfRange, s') \<and> rows s' = rows m)"
    by blast
  from lt have "position new2 < - 2147483648" by (simp add: rm pm)
  then have "\<not> int32 (position new2)" by (simp add: int32_def)
  with d have part2: "\<exists>s'. addTodo (FString ''buy milk'') id_c m = (Inl OutOfRange, s') \<and>
      rows s' = [item id_a (- 2147483648)]"
    by (simp add: rm)
  from h1 h2 h3 h4 h5 h6 part1 m1 m2 m3 m5 part2 show ?thesis unfolding m_def by blast
qed

text \<open>
  C1, as stated: the position of an item inserted into an empty list is 0. Both paths
  compute \<^verbatim>\<open>minPos - 1\<close> with \<^verbatim>\<open>minPos = 0\<close>, which is \<open>-1\<close>.
\<close>

theorem insert_into_empty_gets_zero_counterexample:
  "map position (fst (onAdd (FString ''buy milk'') 1700000000000 [])) = [- 1] \<and>
   map position (fst (onAdd (FString ''buy milk'') 1700000000000 [])) \<noteq> [0] \<and>
   map position (rows (snd (addTodo (FString ''buy milk'') id_a (server_of [] RpcMissing)))) = [- 1] \<and>
   map position (rows (snd (addTodo (FString ''buy milk'') id_a (server_of [] RpcMissing)))) \<noteq> [0]"
proof -
  have t: "form_text (FString ''buy milk'') \<noteq> []" by (simp add: trim_def is_space_def)
  have c: "configured (server_of [] RpcMissing)" "reachable (server_of [] RpcMissing)"
    "id_a \<notin> todo_id ` set (rows (server_of [] RpcMissing))"
    by (simp_all add: configured_def server_of_def)
  have r: "rows (server_of [] RpcMissing) = []" by (simp add: server_of_def)
  have 1: "map position (fst (onAdd (FString ''buy milk'') 1700000000000 [])) = [- 1]"
    by (simp add: onAdd_ok [OF t] minPos_client_def)
  have 2: "map position (rows (snd (addTodo (FString ''buy milk'') id_a (server_of [] RpcMissing)))) = [- 1]"
    by (simp add: addTodo_ok [OF c(1) c(2) t c(3)] r sent_def minPos_server_def int32_def)
  show ?thesis unfolding 1 2 by simp
qed

text \<open>
  C1, amended: an insert into an empty list gives the new item the position \<open>-1\<close>, in the
  local list and in the store, and a listing after it returns that one row.
\<close>

theorem insert_into_empty_position:
  assumes "configured s" and "reachable s" and "rows s = []" and "form_text formData \<noteq> []"
  shows "fst (onAdd formData now []) =
           [\<lparr>todo_id = temp_id now, todo_text = form_text formData,
              completed = False, position = - 1\<rparr>] \<and>
         (\<exists>s'. addTodo formData newId s = (Inr Ok, s') \<and>
            rows s' = [\<lparr>todo_id = newId, todo_text = form_text formData,
                         completed = False, position = - 1\<rparr>] \<and>
            fst (fetchTodos s') = Inr [\<lparr>todo_id = newId, todo_text = form_text formData,
                         completed = False, position = - 1\<rparr>])"
proof -
  let ?new = "\<lparr>todo_id = newId, todo_text = form_text formData, completed = False, position = - 1\<rparr>"
  define s' where "s' = sent (Insert ?new) (sent Select (s\<lparr>cached := True, rows := [?new]\<rparr>))"
  have fresh: "newId \<notin> todo_id ` set (rows s)" using assms(3) by simp
  have run: "addTodo formData newId s = (Inr Ok, s')"
    by (simp add: addTodo_ok [OF assms(1,2,4) fresh] assms(3) s'_def minPos_server_def int32_def)
  have rs: "rows s' = [?new]" by (simp add: s'_def sent_def)
  have "configured s'" "reachable s'"
    using assms(2) by (simp_all add: s'_def sent_def configured_def)
  then have "fst (fetchTodos s') = Inr [?new]" by (simp add: fetchTodos_ok rs)
  with run rs have "\<exists>s'. addTodo formData newId s = (Inr Ok, s') \<and> rows s' = [?new] \<and>
      fst (fetchTodos s') = Inr [?new]" by blast
  moreover have "fst (onAdd formData now []) =
      [\<lparr>todo_id = temp_id now, todo_text = form_text formData, completed = False, position = - 1\<rparr>]"
    by (simp add: onAdd_ok [OF assms(4)] minPos_client_def)
  ultimately show ?thesis by blast
qed

theorem insert_into_empty_position_witness:
  "configured (server_of [] RpcMissing) \<and> reachable (server_of [] RpcMissing) \<and>
   rows (server_of [] RpcMissing) = [] \<and> form_text (FString ''buy milk'') \<noteq> [] \<and>
   fst (onAdd (FString ''buy milk'') 1700000000000 []) =
     [\<lparr>todo_id = ''temp-1700000000000'', todo_text = ''buy milk'',
        completed = False, position = - 1\<rparr>] \<and>
   (\<exists>s'. addTodo (FString ''buy milk'') id_a (server_of [] RpcMissing) = (Inr Ok, s') \<and>
      rows s' = [\<lparr>todo_id = id_a, todo_text = ''buy milk'', completed = False, position = - 1\<rparr>])"
proof -
  let ?s = "server_of [] RpcMissing"
  have h1: "configured ?s" by (simp add: configured_def server_of_def)
  have h2: "reachable ?s" by (simp add: server_of_def)
  have h3: "rows ?s = []" by (simp add: server_of_def)
  have h4: "form_text (FString ''buy milk'') \<noteq> []" by (simp add: trim_def is_space_def)
  have t: "form_text (FString ''buy milk'') = ''buy milk''" by (simp add: trim_def is_space_def)
  have n: "temp_id 1700000000000 = ''temp-1700000000000''"
    by (simp add: temp_id_def show_nat.simps digit_char_def)
  from insert_into_empty_position [OF h1 h2 h3 h4, of 1700000000000 id_a]
  have "fst (onAdd (FString ''buy milk'') 1700000000000 []) =
     [\<lparr>todo_id = ''temp-1700000000000'', todo_text = ''buy milk'',
        completed = False, position = - 1\<rparr>] \<and>
   (\<exists>s'. addTodo (FString ''buy milk'') id_a ?s = (Inr Ok, s') \<and>
      rows s' = [\<lparr>todo_id = id_a, todo_text = ''buy milk'', completed = False, position = - 1\<rparr>])"
    unfolding t n by blast
  with h1 h2 h3 h4 show ?thesis by blast
qed

lemma minPos_server_spec: "minPos_server todos - 1 = spec_insert_position (map position todos)"
  by (cases "todos = []") (simp_all add: spec_insert_position_def minPos_server_Min, simp add: minPos_server_def)

lemma spec_insert_position_set:
  "set ps = set qs \<Longrightarrow> spec_insert_position ps = spec_insert_position qs"
  by (cases "ps = []"; cases "qs = []") (auto simp: spec_insert_position_def)

text \<open>
  C9. For one list state (the client's list and the table hold the same positions) the
  placeholder of \<^verbatim>\<open>onAdd\<close> and the row that \<^verbatim>\<open>addTodo\<close> sends to the store carry the
  same position, and it is the one the specification words describe: the minimum
  existing position, or 0 when the list is empty, minus 1. When that position fits the
  32-bit column the row is appended to the table; when it does not the store refuses the
  insert, \<^verbatim>\<open>addTodo\<close> throws and the placeholder has no durable replacement.
\<close>

theorem optimistic_position_equals_durable:
  assumes "configured s" and "reachable s" and "form_text formData \<noteq> []"
    and "newId \<notin> todo_id ` set (rows s)"
    and "position ` set optimisticTodos = position ` set (rows s)"
  shows "\<exists>temp new.
      fst (onAdd formData now optimisticTodos) = temp # optimisticTodos \<and>
      todo_id new = newId \<and>
      calls (snd (addTodo formData newId s)) = calls s @ [Select, Insert new] \<and>
      position temp = spec_insert_position (map position optimisticTodos) \<and>
      position new = spec_insert_position (map position (rows s)) \<and>
      position temp = position new \<and>
      (int32 (position new) \<longrightarrow>
         (\<exists>s'. addTodo formData newId s = (Inr Ok, s') \<and> rows s' = rows s @ [new])) \<and>
      (\<not> int32 (position new) \<longrightarrow>
         (\<exists>s'. addTodo formData newId s = (Inl OutOfRange, s') \<and> rows s' = rows s))"
proof -
  define new where "new = \<lparr>todo_id = newId, todo_text = form_text formData, completed = False,
      position = minPos_server (sort_key position (rows s)) - 1\<rparr>"
  define temp where "temp = \<lparr>todo_id = temp_id now, todo_text = form_text formData,
      completed = False, position = minPos_client optimisticTodos - 1\<rparr>"
  have pn0: "position new = minPos_server (sort_key position (rows s)) - 1"
    by (simp add: new_def)
  have view: "fst (onAdd formData now optimisticTodos) = temp # optimisticTodos"
    using assms(3) by (simp add: onAdd_ok temp_def)
  have pt: "position temp = spec_insert_position (map position optimisticTodos)"
    by (simp add: temp_def minPos_client_server minPos_server_spec)
  have pn: "position new = spec_insert_position (map position (rows s))"
    by (simp add: new_def minPos_server_sorted minPos_server_spec)
  have "spec_insert_position (map position optimisticTodos)
          = spec_insert_position (map position (rows s))"
    using assms(5) by (intro spec_insert_position_set) simp
  with pt pn have eq: "position temp = position new" by simp
  have ok: "int32 (position new) \<longrightarrow>
         (\<exists>s'. addTodo formData newId s = (Inr Ok, s') \<and> rows s' = rows s @ [new])"
  proof
    assume "int32 (position new)"
    then have r: "int32 (minPos_server (sort_key position (rows s)) - 1)" by (simp add: pn0)
    show "\<exists>s'. addTodo formData newId s = (Inr Ok, s') \<and> rows s' = rows s @ [new]"
      using addTodo_ok [OF assms(1-4) r] by (simp add: sent_def new_def)
  qed
  have ko: "\<not> int32 (position new) \<longrightarrow>
         (\<exists>s'. addTodo formData newId s = (Inl OutOfRange, s') \<and> rows s' = rows s)"
  proof
    assume "\<not> int32 (position new)"
    then have r: "\<not> int32 (minPos_server (sort_key position (rows s)) - 1)" by (simp add: pn0)
    show "\<exists>s'. addTodo formData newId s = (Inl OutOfRange, s') \<and> rows s' = rows s"
      using addTodo_out_of_range [OF assms(1-3) r] by (simp add: sent_def)
  qed
  have log: "calls (snd (addTodo formData newId s)) = calls s @ [Select, Insert new]"
  proof (cases "int32 (minPos_server (sort_key position (rows s)) - 1)")
    case True
    show ?thesis
      using addTodo_ok [OF assms(1-4) True] by (simp add: sent_def new_def)
  next
    case False
    show ?thesis
      using addTodo_out_of_range [OF assms(1-3) False] by (simp add: sent_def new_def)
  qed
  have "todo_id new = newId" by (simp add: new_def)
  with view log pt pn eq ok ko show ?thesis by blast
qed

theorem optimistic_position_equals_durable_witness:
  "configured (server_of [item id_a 5, item id_b 10] RpcWorks) \<and>
   reachable (server_of [item id_a 5, item id_b 10] RpcWorks) \<and>
   form_text (FString ''buy milk'') \<noteq> [] \<and>
   id_c \<notin> todo_id ` set (rows (server_of [item id_a 5, item id_b 10] RpcWorks)) \<and>
   position ` set [item id_b 10, item id_a 5]
     = position ` set (rows (server_of [item id_a 5, item id_b 10] RpcWorks)) \<and>
   (\<exists>temp new s'.
      fst (onAdd (FString ''buy milk'') 1700000000000 [item id_b 10, item id_a 5])
        = [temp, item id_b 10, item id_a 5] \<and>
      addTodo (FString ''buy milk'') id_c (server_of [item id_a 5, item id_b 10] RpcWorks)
        = (Inr Ok, s') \<and>
      rows s' = [item id_a 5, item id_b 10, new] \<and>
      position temp = 4 \<and> position new = 4)"
proof -
  let ?s = "server_of [item id_a 5, item id_b 10] RpcWorks"
  have h1: "configured ?s" by (simp add: configured_def server_of_def)
  have h2: "reachable ?s" by (simp add: server_of_def)
  have h3: "form_text (FString ''buy milk'') \<noteq> []" by (simp add: trim_def is_space_def)
  have h4: "id_c \<notin> todo_id ` set (rows ?s)"
    by (simp add: server_of_def item_def id_a_def id_b_def id_c_def)
  have h5: "position ` set [item id_b 10, item id_a 5] = position ` set (rows ?s)"
    by (auto simp: server_of_def)
  have r: "rows ?s = [item id_a 5, item id_b 10]" by (simp add: server_of_def)
  have sp: "spec_insert_position (map position (rows ?s)) = 4"
    by (simp add: server_of_def item_def spec_insert_position_def)
  from optimistic_position_equals_durable [OF h1 h2 h3 h4 h5, of 1700000000000]
  obtain temp new where
    v: "fst (onAdd (FString ''buy milk'') 1700000000000 [item id_b 10, item id_a 5])
        = temp # [item id_b 10, item id_a 5]"
    and pn: "position new = spec_insert_position (map position (rows ?s))"
    and eq: "position temp = position new"
    and ok: "int32 (position new) \<longrightarrow>
         (\<exists>s'. addTodo (FString ''buy milk'') id_c ?s = (Inr Ok, s') \<and> rows s' = rows ?s @ [new])"
    by blast
  from pn sp have p4: "position new = 4" by simp
  then have "int32 (position new)" by (simp add: int32_def)
  with ok v eq p4 have "\<exists>temp new s'.
      fst (onAdd (FString ''buy milk'') 1700000000000 [item id_b 10, item id_a 5])
        = [temp, item id_b 10, item id_a 5] \<and>
      addTodo (FString ''buy milk'') id_c ?s = (Inr Ok, s') \<and>
      rows s' = [item id_a 5, item id_b 10, new] \<and>
      position temp = 4 \<and> position new = 4"
    unfolding r by auto
  with h1 h2 h3 h4 h5 show ?thesis by blast
qed

section \<open>Blank text\<close>

text \<open>The text of a string field is empty after trimming exactly when it is all white space.\<close>

lemma form_text_blank_iff:
  "form_text (FString t) = [] \<longleftrightarrow> (\<forall>c\<in>set t. is_space c)"
  by (simp add: trim_empty_iff)

text \<open>
  C8. An insert whose text is empty after trimming is rejected before any state change:
  \<^verbatim>\<open>onAdd\<close> returns at once with the list as it was and starts no call, so nothing
  reaches the server; \<^verbatim>\<open>addTodo\<close>, called with such a form, replies
  \<^verbatim>\<open>{ ok: false, error: "Empty" }\<close> before it touches the client or the store.
\<close>

theorem blank_insert_rejected:
  assumes "form_text formData = []"
  shows "onAdd formData now optimisticTodos = (optimisticTodos, []) \<and>
         run_all (snd (onAdd formData now optimisticTodos)) newId s = ([], s) \<and>
         addTodo formData newId s = (Inr (Rejected ''Empty''), s)"
  using assms by (simp add: onAdd_blank addTodo_blank)

theorem blank_insert_rejected_witness:
  "form_text (FString ''   '') = [] \<and>
   onAdd (FString ''   '') 1700000000000 [item id_a 5] = ([item id_a 5], []) \<and>
   run_all (snd (onAdd (FString ''   '') 1700000000000 [item id_a 5])) id_c
       (server_of [item id_a 5] RpcWorks) = ([], server_of [item id_a 5] RpcWorks) \<and>
   addTodo (FString ''   '') id_c (server_of [item id_a 5] RpcWorks)
     = (Inr (Rejected ''Empty''), server_of [item id_a 5] RpcWorks)"
proof -
  have h: "form_text (FString ''   '') = []" by (simp add: trim_def is_space_def)
  from blank_insert_rejected [OF h] h show ?thesis by blast
qed

section \<open>Reordering\<close>

subsection \<open>What \<^verbatim>\<open>reorderTodos\<close> does, case by case\<close>

lemma enumerate_map_nth:
  "map (\<lambda>(k, i). g k i) (enumerate n ids) = map (\<lambda>k. g (n + k) (ids ! k)) [0..<length ids]"
  by (rule nth_equalityI) (simp_all add: nth_enumerate_eq)

lemma db_update_position_snd:
  "snd (db_update_position i p s) =
     s\<lparr>rows := (if reachable s then set_position i p (rows s) else rows s),
       calls := calls s @ [UpdatePosition i p]\<rparr>"
  by (simp add: db_update_position_def sent_def)

lemma fold_update_position:
  "fold (\<lambda>(index, i) s'. snd (db_update_position i (int index) s')) ps s =
     s\<lparr>rows := (if reachable s then fold (\<lambda>(k, i). set_position i (int k)) ps (rows s) else rows s),
       calls := calls s @ map (\<lambda>(k, i). UpdatePosition i (int k)) ps\<rparr>"
proof (induction ps arbitrary: s)
  case Nil
  then show ?case by simp
next
  case (Cons p ps)
  obtain k i where p: "p = (k, i)" by (cases p)
  let ?F = "\<lambda>(index, i) s'. snd (db_update_position i (int index) s')"
  let ?s1 = "snd (db_update_position i (int k) s)"
  have "fold ?F (p # ps) s = fold ?F ps ?s1" by (simp add: p)
  also have "\<dots> = ?s1\<lparr>rows := (if reachable ?s1
                          then fold (\<lambda>(k, i). set_position i (int k)) ps (rows ?s1) else rows ?s1),
                       calls := calls ?s1 @ map (\<lambda>(k, i). UpdatePosition i (int k)) ps\<rparr>"
    by (rule Cons.IH)
  also have "\<dots> = s\<lparr>rows := (if reachable s
                          then fold (\<lambda>(k, i). set_position i (int k)) (p # ps) (rows s) else rows s),
                     calls := calls s @ map (\<lambda>(k, i). UpdatePosition i (int k)) (p # ps)\<rparr>"
    by (simp add: db_update_position_snd p)
  finally show ?case .
qed

lemma manual_updates_eq:
  "manual_updates ids s =
     s\<lparr>rows := (if reachable s then reorder_sql ids (rows s) else rows s),
       calls := calls s @ uploads ids\<rparr>"
  unfolding manual_updates_def fold_update_position reorder_sql_def uploads_def
  by (simp add: enumerate_map_nth [where n = 0, simplified])

lemma reorderTodos_none:
  assumes "configured s" and "filter uuid_test ids = []"
  shows "reorderTodos ids s = (Inr Ok, s\<lparr>cached := True\<rparr>)"
  using assms by (simp add: reorderTodos_def getSupabase_configured)

lemma db_rpc_cases:
  "db_rpc ids s =
     (if rpc s = RpcWorks \<and> reachable s
      then (Returned None, s\<lparr>rows := reorder_sql ids (rows s), calls := calls s @ [Rpc ids]\<rparr>)
      else (fst (db_rpc ids s), s\<lparr>calls := calls s @ [Rpc ids]\<rparr>))"
  by (simp add: db_rpc_def sent_def split: rpc_status.splits)

lemma db_rpc_succeeds_iff:
  "fst (db_rpc ids s) = Returned None \<longleftrightarrow> rpc s = RpcWorks \<and> reachable s"
  by (simp add: db_rpc_def split: rpc_status.splits)

lemma reorderTodos_rpc:
  assumes "configured s" and "filter uuid_test ids \<noteq> []" and "rpc s = RpcWorks" and "reachable s"
  shows "reorderTodos ids s =
     (Inr Ok, s\<lparr>cached := True, rows := reorder_sql (filter uuid_test ids) (rows s),
                calls := calls s @ [Rpc (filter uuid_test ids)]\<rparr>)"
  using assms by (simp add: reorderTodos_def getSupabase_configured db_rpc_def sent_def Let_def)

lemma reorderTodos_fallback:
  assumes "configured s" and "filter uuid_test ids \<noteq> []" and "\<not> (rpc s = RpcWorks \<and> reachable s)"
  shows "reorderTodos ids s =
     (Inr Ok, s\<lparr>cached := True,
                rows := (if reachable s then reorder_sql (filter uuid_test ids) (rows s) else rows s),
                calls := calls s @ Rpc (filter uuid_test ids) # uploads (filter uuid_test ids)\<rparr>)"
  using assms
  by (cases "rpc s")
     (simp_all add: reorderTodos_def getSupabase_configured db_rpc_def sent_def manual_updates_eq Let_def)


lemma position_writes_append:
  "position_writes (cs @ ds) = position_writes cs @ position_writes ds"
  by (induction cs rule: position_writes.induct) simp_all

lemma position_writes_map:
  "position_writes (map (\<lambda>k. UpdatePosition (f k) (g k)) ks) = map (\<lambda>k. (f k, g k)) ks"
  by (induction ks) simp_all

lemma position_writes_uploads:
  "position_writes (uploads ids) = zip ids (map int [0..<length ids])"
  unfolding uploads_def position_writes_map
  by (rule nth_equalityI) simp_all

lemma todo_id_set_position: "map todo_id (set_position i p ts) = map todo_id ts"
  by (induction ts) (simp_all add: set_position_def)

lemma index_of_less: "x \<in> set xs \<Longrightarrow> index_of x xs < length xs"
  by (induction xs) auto

lemma nth_index_of: "x \<in> set xs \<Longrightarrow> xs ! index_of x xs = x"
  by (induction xs) auto

lemma index_of_nth: "distinct xs \<Longrightarrow> k < length xs \<Longrightarrow> index_of (xs ! k) xs = k"
proof (induction xs arbitrary: k)
  case Nil
  then show ?case by simp
next
  case (Cons x xs)
  then show ?case by (cases k) auto
qed

lemma fold_set_position:
  "distinct ids \<Longrightarrow>
   fold (\<lambda>(k, i). set_position i (int k)) (enumerate n ids) ts =
   map (\<lambda>t. if todo_id t \<in> set ids
             then t\<lparr>position := int (n + index_of (todo_id t) ids)\<rparr> else t) ts"
proof (induction ids arbitrary: n ts)
  case Nil
  then show ?case by simp
next
  case (Cons i ids)
  then have d: "distinct ids" and ni: "i \<notin> set ids" by simp_all
  let ?F = "\<lambda>(k, i). set_position i (int k)"
  have "fold ?F (enumerate n (i # ids)) ts = fold ?F (enumerate (Suc n) ids) (set_position i (int n) ts)"
    by simp
  also have "\<dots> = map (\<lambda>t. if todo_id t \<in> set ids
             then t\<lparr>position := int (Suc n + index_of (todo_id t) ids)\<rparr> else t)
           (set_position i (int n) ts)"
    by (rule Cons.IH [OF d])
  also have "\<dots> = map (\<lambda>t. if todo_id t \<in> set (i # ids)
             then t\<lparr>position := int (n + index_of (todo_id t) (i # ids))\<rparr> else t) ts"
    using ni by (auto simp: set_position_def)
  finally show ?case .
qed

lemma reorder_sql_distinct:
  "distinct ids \<Longrightarrow>
   reorder_sql ids ts =
   map (\<lambda>t. if todo_id t \<in> set ids then t\<lparr>position := int (index_of (todo_id t) ids)\<rparr> else t) ts"
  by (simp add: reorder_sql_def fold_set_position)

lemma fold_set_position_others:
  "\<forall>(k, i)\<in>set ps. i \<in> S \<Longrightarrow>
   filter (\<lambda>t. todo_id t \<notin> S) (fold (\<lambda>(k, i). set_position i (int k)) ps ts)
     = filter (\<lambda>t. todo_id t \<notin> S) ts"
proof (induction ps arbitrary: ts)
  case Nil
  then show ?case by simp
next
  case (Cons p ps)
  obtain k i where p: "p = (k, i)" by (cases p)
  with Cons.prems have i: "i \<in> S" and rest: "\<forall>(k, i)\<in>set ps. i \<in> S" by auto
  have "filter (\<lambda>t. todo_id t \<notin> S) (set_position i (int k) ts) = filter (\<lambda>t. todo_id t \<notin> S) ts"
    using i by (induction ts) (auto simp: set_position_def)
  then show ?case by (simp add: p Cons.IH [OF rest])
qed

lemma reorder_sql_others:
  "filter (\<lambda>t. todo_id t \<notin> set ids) (reorder_sql ids ts) = filter (\<lambda>t. todo_id t \<notin> set ids) ts"
  unfolding reorder_sql_def
  by (rule fold_set_position_others) (auto simp: enumerate_eq_zip dest: set_zip_rightD)


lemma not_uuid_temp1: "\<not> uuid_test ''temp-1''"
  by code_simp

lemma filter_mixed: "filter uuid_test [id_b, ''temp-1'', id_a, id_c] = [id_b, id_a, id_c]"
  by (simp add: uuid_a uuid_b uuid_c not_uuid_temp1)

lemma uploads_bac: "uploads [id_b, id_a, id_c]
    = [UpdatePosition id_b 0, UpdatePosition id_a 1, UpdatePosition id_c 2]"
  by (simp add: uploads_def upt_rec)

subsection \<open>The order of persistence\<close>

text \<open>
  C7. With at least one identifier left after the filter, \<^verbatim>\<open>reorderTodos\<close> first sends
  the single call of \<^verbatim>\<open>reorder_todos\<close> with the whole filtered list. If that call returns
  without an error, nothing else is sent. If it returns an error (the function is
  missing, the store cannot be reached) or throws, the per-item writes follow, one for
  each identifier with its index. The action replies \<^verbatim>\<open>{ ok: true }\<close> either way.
\<close>

theorem reorder_tries_rpc_then_falls_back:
  assumes "configured s" and "filter uuid_test ids \<noteq> []"
  shows "\<exists>s'. reorderTodos ids s = (Inr Ok, s') \<and>
     (fst (db_rpc (filter uuid_test ids) s) = Returned None \<longrightarrow>
        calls s' = calls s @ [Rpc (filter uuid_test ids)]) \<and>
     (fst (db_rpc (filter uuid_test ids) s) \<noteq> Returned None \<longrightarrow>
        calls s' = calls s @ Rpc (filter uuid_test ids) # uploads (filter uuid_test ids))"
proof (cases "rpc s = RpcWorks \<and> reachable s")
  case True
  then have "fst (db_rpc (filter uuid_test ids) s) = Returned None"
    by (simp add: db_rpc_succeeds_iff)
  moreover have "calls (snd (reorderTodos ids s)) = calls s @ [Rpc (filter uuid_test ids)]"
    using True assms by (simp add: reorderTodos_rpc)
  moreover have "fst (reorderTodos ids s) = Inr Ok"
    using True assms by (simp add: reorderTodos_rpc)
  ultimately show ?thesis by (cases "reorderTodos ids s") auto
next
  case False
  then have "fst (db_rpc (filter uuid_test ids) s) \<noteq> Returned None"
    by (simp add: db_rpc_succeeds_iff)
  moreover have "calls (snd (reorderTodos ids s))
      = calls s @ Rpc (filter uuid_test ids) # uploads (filter uuid_test ids)"
    using False assms by (simp add: reorderTodos_fallback)
  moreover have "fst (reorderTodos ids s) = Inr Ok"
    using False assms by (simp add: reorderTodos_fallback)
  ultimately show ?thesis by (cases "reorderTodos ids s") auto
qed

theorem reorder_tries_rpc_then_falls_back_witness:
  "configured (server_of [item id_a 5, item id_b 10, item id_c 20] RpcWorks) \<and>
   configured (server_of [item id_a 5, item id_b 10, item id_c 20] RpcMissing) \<and>
   filter uuid_test [id_b, ''temp-1'', id_a, id_c] \<noteq> [] \<and>
   calls (snd (reorderTodos [id_b, ''temp-1'', id_a, id_c]
                 (server_of [item id_a 5, item id_b 10, item id_c 20] RpcWorks)))
     = [Rpc [id_b, id_a, id_c]] \<and>
   calls (snd (reorderTodos [id_b, ''temp-1'', id_a, id_c]
                 (server_of [item id_a 5, item id_b 10, item id_c 20] RpcMissing)))
     = [Rpc [id_b, id_a, id_c],
        UpdatePosition id_b 0, UpdatePosition id_a 1, UpdatePosition id_c 2]"
proof -
  let ?ts = "[item id_a 5, item id_b 10, item id_c 20]"
  let ?ids = "[id_b, ''temp-1'', id_a, id_c]"
  have h1: "configured (server_of ?ts RpcWorks)" by (simp add: configured_def server_of_def)
  have h1': "configured (server_of ?ts RpcMissing)" by (simp add: configured_def server_of_def)
  have h2: "filter uuid_test ?ids \<noteq> []" unfolding filter_mixed by simp
  have ok: "fst (db_rpc (filter uuid_test ?ids) (server_of ?ts RpcWorks)) = Returned None"
    by (simp add: db_rpc_succeeds_iff server_of_def)
  have ko: "fst (db_rpc (filter uuid_test ?ids) (server_of ?ts RpcMissing)) \<noteq> Returned None"
    by (simp add: db_rpc_succeeds_iff server_of_def)
  have c0: "calls (server_of ?ts RpcWorks) = []" "calls (server_of ?ts RpcMissing) = []"
    by (simp_all add: server_of_def)
  from reorder_tries_rpc_then_falls_back [OF h1 h2, unfolded filter_mixed] ok [unfolded filter_mixed]
  have 1: "calls (snd (reorderTodos ?ids (server_of ?ts RpcWorks))) = [Rpc [id_b, id_a, id_c]]"
    by (auto simp: c0)
  from reorder_tries_rpc_then_falls_back [OF h1' h2, unfolded filter_mixed] ko [unfolded filter_mixed]
  have 2: "calls (snd (reorderTodos ?ids (server_of ?ts RpcMissing)))
      = [Rpc [id_b, id_a, id_c], UpdatePosition id_b 0, UpdatePosition id_a 1, UpdatePosition id_c 2]"
    by (auto simp: c0 uploads_bac)
  from h1 h1' h2 1 2 show ?thesis by blast
qed

text \<open>
  C3. On the fallback path, for a list of \<open>N\<close> distinct durable identifiers, the
  position writes sent are exactly the pairs of the \<open>k\<close>-th identifier and \<open>k\<close>, in input
  order: the positions are \<open>0, \<dots>, N - 1\<close> without duplicates, the assignment maps the
  \<open>k\<close>-th identifier to \<open>k\<close>, and when the store is reachable every row with that
  identifier ends at position \<open>k\<close>. For \<open>[b, a, c]\<close>: \<open>b\<close> to 0, \<open>a\<close> to 1, \<open>c\<close> to 2.
\<close>

theorem fallback_positions_in_input_order:
  assumes "configured s" and "ids \<noteq> []" and "distinct ids" and "\<forall>i\<in>set ids. uuid_test i"
    and "fst (db_rpc ids s) \<noteq> Returned None"
  shows "\<exists>s'. reorderTodos ids s = (Inr Ok, s') \<and>
     position_writes (calls s') = position_writes (calls s) @ zip ids (map int [0..<length ids]) \<and>
     (\<forall>k<length ids. map_of (zip ids (map int [0..<length ids])) (ids ! k) = Some (int k)) \<and>
     map snd (zip ids (map int [0..<length ids])) = map int [0..<length ids] \<and>
     distinct (map snd (zip ids (map int [0..<length ids]))) \<and>
     (reachable s \<longrightarrow>
        (\<forall>t\<in>set (rows s'). \<forall>k<length ids. todo_id t = ids ! k \<longrightarrow> position t = int k))"
proof -
  have f: "filter uuid_test ids = ids" using assms(4) by simp
  have nf: "filter uuid_test ids \<noteq> []" using assms(2) by (simp add: f)
  have fb: "\<not> (rpc s = RpcWorks \<and> reachable s)"
    using assms(5) by (simp add: db_rpc_succeeds_iff)
  define s' where "s' = s\<lparr>cached := True,
      rows := (if reachable s then reorder_sql ids (rows s) else rows s),
      calls := calls s @ Rpc ids # uploads ids\<rparr>"
  have run: "reorderTodos ids s = (Inr Ok, s')"
    using reorderTodos_fallback [OF assms(1) nf fb] by (simp add: f s'_def)
  have w: "position_writes (calls s') = position_writes (calls s) @ zip ids (map int [0..<length ids])"
    by (simp add: s'_def position_writes_append position_writes_uploads)
  have m: "\<forall>k<length ids. map_of (zip ids (map int [0..<length ids])) (ids ! k) = Some (int k)"
  proof (intro allI impI)
    fix k assume k: "k < length ids"
    have "map_of (zip ids (map int [0..<length ids])) (ids ! k) = Some (map int [0..<length ids] ! k)"
      using assms(3) k by (intro map_of_zip_nth) simp_all
    then show "map_of (zip ids (map int [0..<length ids])) (ids ! k) = Some (int k)"
      using k by simp
  qed
  have sn: "map snd (zip ids (map int [0..<length ids])) = map int [0..<length ids]"
    by simp
  have d: "distinct (map snd (zip ids (map int [0..<length ids])))"
    unfolding sn by (simp add: distinct_map)
  have r: "reachable s \<longrightarrow>
        (\<forall>t\<in>set (rows s'). \<forall>k<length ids. todo_id t = ids ! k \<longrightarrow> position t = int k)"
  proof (intro impI ballI allI)
    fix t k assume re: "reachable s" and t: "t \<in> set (rows s')" and k: "k < length ids"
      and e: "todo_id t = ids ! k"
    have "rows s' = map (\<lambda>t. if todo_id t \<in> set ids
              then t\<lparr>position := int (index_of (todo_id t) ids)\<rparr> else t) (rows s)"
      using re by (simp add: s'_def reorder_sql_distinct [OF assms(3)])
    with t obtain u where u: "u \<in> set (rows s)"
      and tu: "t = (if todo_id u \<in> set ids then u\<lparr>position := int (index_of (todo_id u) ids)\<rparr> else u)"
      by auto
    have "todo_id t = todo_id u" by (simp add: tu)
    with e k have "todo_id u \<in> set ids" by simp
    with tu have "position t = int (index_of (todo_id t) ids)" by simp
    also have "\<dots> = int k" using e k assms(3) by (simp add: index_of_nth)
    finally show "position t = int k" .
  qed
  from run w m sn d r show ?thesis by blast
qed

theorem fallback_positions_in_input_order_witness:
  "configured (server_of [item id_a 5, item id_b 10, item id_c 20] RpcMissing) \<and>
   [id_b, id_a, id_c] \<noteq> [] \<and> distinct [id_b, id_a, id_c] \<and>
   uuid_test id_b \<and> uuid_test id_a \<and> uuid_test id_c \<and>
   fst (db_rpc [id_b, id_a, id_c] (server_of [item id_a 5, item id_b 10, item id_c 20] RpcMissing))
     \<noteq> Returned None \<and>
   position_writes (calls (snd (reorderTodos [id_b, id_a, id_c]
       (server_of [item id_a 5, item id_b 10, item id_c 20] RpcMissing))))
     = [(id_b, 0), (id_a, 1), (id_c, 2)]"
proof -
  let ?s = "server_of [item id_a 5, item id_b 10, item id_c 20] RpcMissing"
  let ?ids = "[id_b, id_a, id_c]"
  have h1: "configured ?s" by (simp add: configured_def server_of_def)
  have h2: "?ids \<noteq> []" by simp
  have h3: "distinct ?ids" by (simp add: id_a_def id_b_def id_c_def)
  have h4: "\<forall>i\<in>set ?ids. uuid_test i" by (simp add: uuid_a uuid_b uuid_c)
  have h5: "fst (db_rpc ?ids ?s) \<noteq> Returned None"
    by (simp add: db_rpc_succeeds_iff server_of_def)
  have c0: "calls ?s = []" by (simp add: server_of_def)
  from fallback_positions_in_input_order [OF h1 h2 h3 h4 h5]
  have "position_writes (calls (snd (reorderTodos ?ids ?s))) = [(id_b, 0), (id_a, 1), (id_c, 2)]"
    by (auto simp: c0 upt_rec)
  with h1 h2 h3 h5 uuid_a uuid_b uuid_c show ?thesis by blast
qed

subsection \<open>Placeholders are not persisted\<close>

lemma findIndex_Some: "findIndex P xs = Some k \<Longrightarrow> k < length xs \<and> P (xs ! k)"
proof (induction xs arbitrary: k)
  case Nil
  then show ?case by simp
next
  case (Cons x xs)
  then show ?case by (auto split: if_splits option.splits)
qed

lemma splice_out_set: "splice_out k xs = (ms, c) \<Longrightarrow> set ms \<subseteq> set xs \<and> set c \<subseteq> set xs"
  by (auto simp: splice_out_def dest: in_set_takeD in_set_dropD)

lemma splice_in_set: "set (splice_in k x xs) \<subseteq> insert x (set xs)"
  by (auto simp: splice_in_def dest: in_set_takeD in_set_dropD)

lemma reorderTodosById_dispatch:
  "\<exists>c. set c \<subseteq> set optimisticTodos \<and>
       (snd (reorderTodosById draggedId targetId optimisticTodos) = [] \<or>
        snd (reorderTodosById draggedId targetId optimisticTodos) = persist_order (stableIds c))"
proof (cases "findIndex (\<lambda>t. todo_id t = draggedId) optimisticTodos")
  case None
  then show ?thesis by (auto simp: reorderTodosById_def)
next
  case (Some fromIdx)
  note f = this
  show ?thesis
  proof (cases "findIndex (\<lambda>t. todo_id t = targetId) optimisticTodos")
    case None
    then show ?thesis by (auto simp: reorderTodosById_def f)
  next
    case (Some toIdx)
    obtain ms c where sp: "splice_out fromIdx optimisticTodos = (ms, c)"
      by (cases "splice_out fromIdx optimisticTodos")
    show ?thesis
    proof (cases ms)
      case Nil
      then show ?thesis by (auto simp: reorderTodosById_def f Some sp)
    next
      case (Cons moved rest)
      have sub: "set (splice_in toIdx moved c) \<subseteq> set optimisticTodos"
        using splice_out_set [OF sp] splice_in_set [of toIdx moved c] Cons by auto
      have "snd (reorderTodosById draggedId targetId optimisticTodos)
              = persist_order (stableIds (splice_in toIdx moved c))"
        by (simp add: reorderTodosById_def f Some sp Cons Let_def)
      with sub show ?thesis by blast
    qed
  qed
qed

lemma persist_order_cases:
  "d \<in> set (persist_order xs) \<Longrightarrow> d = \<lparr>action = ReorderTodos xs, caught = False\<rparr> \<and> xs \<noteq> []"
  by (auto simp: persist_order_def split: if_splits)

lemma stableIds_set:
  "i \<in> set (stableIds c) \<Longrightarrow> \<not> startsWith i ''temp-'' \<and> i \<in> todo_id ` set c"
  by (auto simp: stableIds_def)

lemma stableIds_all_temp:
  "\<forall>t\<in>set c. startsWith (todo_id t) ''temp-'' \<Longrightarrow> stableIds c = []"
  by (auto simp: stableIds_def filter_empty_conv)

lemma uploads_set:
  "c \<in> set (uploads ids) \<Longrightarrow> \<exists>i p. c = UpdatePosition i p \<and> i \<in> set ids"
  by (auto simp: uploads_def)

lemma reorderTodos_unconfigured:
  "\<not> configured s \<Longrightarrow> reorderTodos ids s = (Inl ConfigMissing, s)"
  by (auto simp: reorderTodos_def getSupabase_def configured_def)

lemma reorderTodos_summary:
  "\<exists>r s' new. reorderTodos ids s = (r, s') \<and> (configured s \<longrightarrow> r = Inr Ok) \<and>
      calls s' = calls s @ new \<and>
      (new = [] \<or> new = [Rpc (filter uuid_test ids)] \<or>
       new = Rpc (filter uuid_test ids) # uploads (filter uuid_test ids)) \<and>
      (filter uuid_test ids = [] \<longrightarrow> new = [] \<and> rows s' = rows s) \<and>
      (rows s' = rows s \<or> rows s' = reorder_sql (filter uuid_test ids) (rows s))"
proof (cases "configured s")
  case False
  then show ?thesis by (simp add: reorderTodos_unconfigured)
next
  case True
  note c = this
  show ?thesis
  proof (cases "filter uuid_test ids = []")
    case True
    then show ?thesis using c by (simp add: reorderTodos_none)
  next
    case False
    note nf = this
    show ?thesis
    proof (cases "rpc s = RpcWorks \<and> reachable s")
      case True
      then show ?thesis using c nf by (simp add: reorderTodos_rpc)
    next
      case False
      then show ?thesis using c nf by (simp add: reorderTodos_fallback)
    qed
  qed
qed

lemma startsWith_temp1: "startsWith ''temp-1'' ''temp-''" and startsWith_temp2: "startsWith ''temp-2'' ''temp-''"
  by (simp_all add: startsWith_def)

lemma not_uuid_temp2: "\<not> uuid_test ''temp-2''"
  by code_simp

lemma reorderTodos_exact:
  assumes "configured s"
  shows "reorderTodos ids s =
     (Inr Ok,
      s\<lparr>cached := True,
        rows := (if reachable s then reorder_sql (filter uuid_test ids) (rows s) else rows s),
        calls := calls s @
          (if filter uuid_test ids = [] then []
           else if fst (db_rpc (filter uuid_test ids) s) = Returned None
             then [Rpc (filter uuid_test ids)]
             else Rpc (filter uuid_test ids) #
                  map (\<lambda>k. UpdatePosition (filter uuid_test ids ! k) (int k))
                      [0..<length (filter uuid_test ids)])\<rparr>)"
proof (cases "filter uuid_test ids = []")
  case True
  then show ?thesis
    using assms by (simp add: reorderTodos_none reorder_sql_def)
next
  case False
  note nf = this
  show ?thesis
  proof (cases "rpc s = RpcWorks \<and> reachable s")
    case True
    then show ?thesis
      using assms nf by (simp add: reorderTodos_rpc db_rpc_succeeds_iff)
  next
    case False
    then have "fst (db_rpc (filter uuid_test ids) s) \<noteq> Returned None"
      by (simp add: db_rpc_succeeds_iff)
    then show ?thesis
      using reorderTodos_fallback [OF assms nf False] nf by (simp add: uploads_def)
  qed
qed

lemma reorder_sql_ids: "map todo_id (reorder_sql ids ts) = map todo_id ts"
proof -
  have "map todo_id (fold (\<lambda>(k, i). set_position i (int k)) ps ts) = map todo_id ts" for ps
  proof (induction ps arbitrary: ts)
    case Nil
    then show ?case by simp
  next
    case (Cons p ps)
    obtain k i where p: "p = (k, i)" by (cases p)
    show ?case by (simp add: p Cons.IH todo_id_set_position)
  qed
  then show ?thesis by (simp add: reorder_sql_def)
qed

lemma reorder_sql_positions:
  assumes "distinct ids" and "t \<in> set (reorder_sql ids ts)" and "k < length ids"
    and "todo_id t = ids ! k"
  shows "position t = int k"
proof -
  let ?f = "\<lambda>t. if todo_id t \<in> set ids
              then t\<lparr>position := int (index_of (todo_id t) ids)\<rparr> else t"
  have "reorder_sql ids ts = map ?f ts"
    by (rule reorder_sql_distinct [OF assms(1)])
  with assms(2) have "t \<in> set (map ?f ts)" by simp
  then have "t \<in> ?f ` set ts" by (simp only: set_map)
  then obtain u where
    tu: "t = (if todo_id u \<in> set ids then u\<lparr>position := int (index_of (todo_id u) ids)\<rparr> else u)"
    by (rule imageE)
  have "todo_id t = todo_id u" by (simp add: tu)
  with assms(3,4) have "todo_id u \<in> set ids" by simp
  with tu have "position t = int (index_of (todo_id t) ids)" by simp
  also have "\<dots> = int k" using assms(1,3,4) by (simp add: index_of_nth)
  finally show ?thesis .
qed

lemma findIndex_None: "findIndex P xs = None \<longleftrightarrow> (\<forall>x\<in>set xs. \<not> P x)"
  by (induction xs) (auto split: option.splits)

lemma splice_out_nth:
  "k < length xs \<Longrightarrow> splice_out k xs = ([xs ! k], take k xs @ drop (Suc k) xs)"
  by (simp add: splice_out_def take_Suc_conv_app_nth hd_drop_conv_nth take_Suc drop_eq_Nil2)

lemma mset_splice_in: "mset (splice_in j x xs) = add_mset x (mset xs)"
proof -
  have "mset (take j xs @ drop j xs) = mset xs" by (simp only: append_take_drop_id)
  then have "mset (take j xs) + mset (drop j xs) = mset xs" by (simp only: mset_append)
  then show ?thesis by (simp add: splice_in_def)
qed

lemma mset_splice_out: "k < length xs \<Longrightarrow> add_mset (xs ! k) (mset (take k xs @ drop (Suc k) xs)) = mset xs"
proof -
  assume "k < length xs"
  then have "xs = take k xs @ xs ! k # drop (Suc k) xs" by (rule id_take_nth_drop)
  then have "mset xs = mset (take k xs @ xs ! k # drop (Suc k) xs)" by simp
  then show ?thesis by simp
qed

lemma persist_order_eq:
  "persist_order xs = (if xs = [] then [] else [\<lparr>action = ReorderTodos xs, caught = False\<rparr>])"
  by (simp add: persist_order_def)

lemma reorderTodosById_found:
  assumes "draggedId \<in> todo_id ` set optimisticTodos" and "targetId \<in> todo_id ` set optimisticTodos"
  shows "mset (fst (reorderTodosById draggedId targetId optimisticTodos)) = mset optimisticTodos"
    and "snd (reorderTodosById draggedId targetId optimisticTodos)
           = persist_order (stableIds (fst (reorderTodosById draggedId targetId optimisticTodos)))"
proof -
  obtain fromIdx where f: "findIndex (\<lambda>t. todo_id t = draggedId) optimisticTodos = Some fromIdx"
    using assms(1) findIndex_None [of "\<lambda>t. todo_id t = draggedId" optimisticTodos]
    by (cases "findIndex (\<lambda>t. todo_id t = draggedId) optimisticTodos") auto
  obtain toIdx where t: "findIndex (\<lambda>t. todo_id t = targetId) optimisticTodos = Some toIdx"
    using assms(2) findIndex_None [of "\<lambda>t. todo_id t = targetId" optimisticTodos]
    by (cases "findIndex (\<lambda>t. todo_id t = targetId) optimisticTodos") auto
  from findIndex_Some [OF f] have lt: "fromIdx < length optimisticTodos" by simp
  let ?c = "take fromIdx optimisticTodos @ drop (Suc fromIdx) optimisticTodos"
  let ?c' = "splice_in toIdx (optimisticTodos ! fromIdx) ?c"
  have R: "reorderTodosById draggedId targetId optimisticTodos = (?c', persist_order (stableIds ?c'))"
    by (simp add: reorderTodosById_def f t splice_out_nth [OF lt] Let_def)
  show "mset (fst (reorderTodosById draggedId targetId optimisticTodos)) = mset optimisticTodos"
    unfolding R fst_conv mset_splice_in by (rule mset_splice_out [OF lt])
  show "snd (reorderTodosById draggedId targetId optimisticTodos)
           = persist_order (stableIds (fst (reorderTodosById draggedId targetId optimisticTodos)))"
    unfolding R by simp
qed

lemma reorderTodosById_absent:
  assumes "draggedId \<notin> todo_id ` set optimisticTodos \<or> targetId \<notin> todo_id ` set optimisticTodos"
  shows "reorderTodosById draggedId targetId optimisticTodos = (optimisticTodos, [])"
proof -
  from assms have "findIndex (\<lambda>t. todo_id t = draggedId) optimisticTodos = None \<or>
                   findIndex (\<lambda>t. todo_id t = targetId) optimisticTodos = None"
    by (auto simp: findIndex_None)
  then show ?thesis
    by (auto simp: reorderTodosById_def split: option.splits)
qed

text \<open>
  C5. On a configured server \<^verbatim>\<open>reorderTodos\<close> replies \<^verbatim>\<open>{ ok: true }\<close> and sends exactly
  this: nothing when no identifier of the list matches the durable format; otherwise
  the call of \<^verbatim>\<open>reorder_todos\<close> with the matching identifiers, in their order, and, when
  that call fails, one position write per matching identifier with its index among
  them. When the store is reachable and the matching identifiers are distinct, every
  row with the \<open>k\<close>-th of them ends at position \<open>k\<close>; no row is added or removed, and
  rows with other identifiers are left as they are. On any server, every request sent
  carries only identifiers of the list that match the durable format, and with none
  matching nothing is sent and the rows are unchanged (a server that cannot build its
  client throws before the filter, having sent nothing). On the client, when both the
  dragged and the target item are in the list, \<^verbatim>\<open>reorderTodosById\<close> keeps the items,
  and starts one call of \<^verbatim>\<open>reorderTodos\<close> with the identifiers of the reordered list that
  lack the prefix \<^verbatim>\<open>temp-\<close>, in the new order, or no call if there is none; when one of
  the two is not in the list it changes nothing and starts no call.
\<close>

theorem reorder_persists_durable_only:
  "\<exists>r s'. reorderTodos ids s = (r, s') \<and>
      (configured s \<longrightarrow> r = Inr Ok \<and>
         calls s' = calls s @
           (if filter uuid_test ids = [] then []
            else if fst (db_rpc (filter uuid_test ids) s) = Returned None
              then [Rpc (filter uuid_test ids)]
              else Rpc (filter uuid_test ids) #
                   map (\<lambda>k. UpdatePosition (filter uuid_test ids ! k) (int k))
                       [0..<length (filter uuid_test ids)])) \<and>
      (configured s \<and> reachable s \<and> distinct (filter uuid_test ids) \<longrightarrow>
         (\<forall>t\<in>set (rows s'). \<forall>k<length (filter uuid_test ids).
             todo_id t = filter uuid_test ids ! k \<longrightarrow> position t = int k)) \<and>
      map todo_id (rows s') = map todo_id (rows s) \<and>
      (\<exists>new. calls s' = calls s @ new \<and>
         (\<forall>c\<in>set new. c = Rpc (filter uuid_test ids) \<or>
                        (\<exists>i p. c = UpdatePosition i p \<and> i \<in> set ids \<and> uuid_test i))) \<and>
      filter (\<lambda>t. todo_id t \<notin> set (filter uuid_test ids)) (rows s')
        = filter (\<lambda>t. todo_id t \<notin> set (filter uuid_test ids)) (rows s) \<and>
      (filter uuid_test ids = [] \<longrightarrow> calls s' = calls s \<and> rows s' = rows s) \<and>
      (draggedId \<in> todo_id ` set optimisticTodos \<and> targetId \<in> todo_id ` set optimisticTodos \<longrightarrow>
         mset (fst (reorderTodosById draggedId targetId optimisticTodos)) = mset optimisticTodos \<and>
         snd (reorderTodosById draggedId targetId optimisticTodos) =
           (if filter (\<lambda>i. \<not> startsWith i ''temp-'')
                 (map todo_id (fst (reorderTodosById draggedId targetId optimisticTodos))) = []
            then []
            else [\<lparr>action = ReorderTodos
                      (filter (\<lambda>i. \<not> startsWith i ''temp-'')
                         (map todo_id (fst (reorderTodosById draggedId targetId optimisticTodos)))),
                    caught = False\<rparr>])) \<and>
      (draggedId \<notin> todo_id ` set optimisticTodos \<or> targetId \<notin> todo_id ` set optimisticTodos \<longrightarrow>
         reorderTodosById draggedId targetId optimisticTodos = (optimisticTodos, [])) \<and>
      (\<forall>d\<in>set (snd (reorderTodosById draggedId targetId optimisticTodos)).
          \<exists>xs. d = \<lparr>action = ReorderTodos xs, caught = False\<rparr> \<and> xs \<noteq> [] \<and>
               (\<forall>i\<in>set xs. \<not> startsWith i ''temp-'' \<and> i \<in> todo_id ` set optimisticTodos)) \<and>
      ((\<forall>t\<in>set optimisticTodos. startsWith (todo_id t) ''temp-'') \<longrightarrow>
          snd (reorderTodosById draggedId targetId optimisticTodos) = [])"
proof -
  let ?u = "filter uuid_test ids"
  let ?R = "reorderTodosById draggedId targetId optimisticTodos"
  obtain r s' new where run: "reorderTodos ids s = (r, s')" and ok: "configured s \<longrightarrow> r = Inr Ok"
    and cs: "calls s' = calls s @ new"
    and shape: "new = [] \<or> new = [Rpc ?u] \<or> new = Rpc ?u # uploads ?u"
    and none: "?u = [] \<longrightarrow> new = [] \<and> rows s' = rows s"
    and rs: "rows s' = rows s \<or> rows s' = reorder_sql ?u (rows s)"
    using reorderTodos_summary [of ids s] by blast
  have exact: "configured s \<longrightarrow> r = Inr Ok \<and>
         calls s' = calls s @
           (if ?u = [] then []
            else if fst (db_rpc ?u s) = Returned None then [Rpc ?u]
              else Rpc ?u # map (\<lambda>k. UpdatePosition (?u ! k) (int k)) [0..<length ?u])"
  proof
    assume c: "configured s"
    from reorderTodos_exact [OF c, of ids] run
    show "r = Inr Ok \<and>
         calls s' = calls s @
           (if ?u = [] then []
            else if fst (db_rpc ?u s) = Returned None then [Rpc ?u]
              else Rpc ?u # map (\<lambda>k. UpdatePosition (?u ! k) (int k)) [0..<length ?u])"
      by auto
  qed
  have placed: "configured s \<and> reachable s \<and> distinct ?u \<longrightarrow>
         (\<forall>t\<in>set (rows s'). \<forall>k<length ?u. todo_id t = ?u ! k \<longrightarrow> position t = int k)"
  proof (intro impI ballI allI)
    fix t k
    assume h: "configured s \<and> reachable s \<and> distinct ?u" and t: "t \<in> set (rows s')"
      and k: "k < length ?u" and e: "todo_id t = ?u ! k"
    from h reorderTodos_exact [of s ids] run have "rows s' = reorder_sql ?u (rows s)" by auto
    with t have "t \<in> set (reorder_sql ?u (rows s))" by simp
    with h show "position t = int k" using k e by (intro reorder_sql_positions [of ?u t "rows s" k]) simp_all
  qed
  have kept: "map todo_id (rows s') = map todo_id (rows s)"
    using rs by (auto simp: reorder_sql_ids)
  have only: "\<forall>c\<in>set new. c = Rpc ?u \<or>
                     (\<exists>i p. c = UpdatePosition i p \<and> i \<in> set ids \<and> uuid_test i)"
  proof
    fix c assume "c \<in> set new"
    with shape have "c = Rpc ?u \<or> c \<in> set (uploads ?u)" by auto
    then show "c = Rpc ?u \<or> (\<exists>i p. c = UpdatePosition i p \<and> i \<in> set ids \<and> uuid_test i)"
      using uploads_set [of c ?u] by auto
  qed
  with cs have upper: "\<exists>new. calls s' = calls s @ new \<and>
         (\<forall>c\<in>set new. c = Rpc ?u \<or> (\<exists>i p. c = UpdatePosition i p \<and> i \<in> set ids \<and> uuid_test i))"
    by blast
  have others: "filter (\<lambda>t. todo_id t \<notin> set ?u) (rows s') = filter (\<lambda>t. todo_id t \<notin> set ?u) (rows s)"
    using rs reorder_sql_others [of ?u "rows s"] by auto
  have none': "?u = [] \<longrightarrow> calls s' = calls s \<and> rows s' = rows s"
    using none cs by simp
  have found: "draggedId \<in> todo_id ` set optimisticTodos \<and> targetId \<in> todo_id ` set optimisticTodos \<longrightarrow>
         mset (fst ?R) = mset optimisticTodos \<and>
         snd ?R =
           (if filter (\<lambda>i. \<not> startsWith i ''temp-'') (map todo_id (fst ?R)) = [] then []
            else [\<lparr>action = ReorderTodos (filter (\<lambda>i. \<not> startsWith i ''temp-'') (map todo_id (fst ?R))),
                    caught = False\<rparr>])"
  proof
    assume h: "draggedId \<in> todo_id ` set optimisticTodos \<and> targetId \<in> todo_id ` set optimisticTodos"
    then have m: "mset (fst ?R) = mset optimisticTodos"
      and d: "snd ?R = persist_order (stableIds (fst ?R))"
      by (simp_all add: reorderTodosById_found)
    have "persist_order (stableIds (fst ?R)) =
           (if filter (\<lambda>i. \<not> startsWith i ''temp-'') (map todo_id (fst ?R)) = [] then []
            else [\<lparr>action = ReorderTodos (filter (\<lambda>i. \<not> startsWith i ''temp-'') (map todo_id (fst ?R))),
                    caught = False\<rparr>])"
      unfolding stableIds_def by (rule persist_order_eq)
    with m d show "mset (fst ?R) = mset optimisticTodos \<and>
         snd ?R =
           (if filter (\<lambda>i. \<not> startsWith i ''temp-'') (map todo_id (fst ?R)) = [] then []
            else [\<lparr>action = ReorderTodos (filter (\<lambda>i. \<not> startsWith i ''temp-'') (map todo_id (fst ?R))),
                    caught = False\<rparr>])"
      by simp
  qed
  have absent: "draggedId \<notin> todo_id ` set optimisticTodos \<or> targetId \<notin> todo_id ` set optimisticTodos \<longrightarrow>
         ?R = (optimisticTodos, [])"
    using reorderTodosById_absent [of draggedId optimisticTodos targetId] by blast
  obtain c where sub: "set c \<subseteq> set optimisticTodos"
    and disp: "snd ?R = [] \<or> snd ?R = persist_order (stableIds c)"
    using reorderTodosById_dispatch [of optimisticTodos draggedId targetId] by blast
  have client: "\<forall>d\<in>set (snd ?R).
          \<exists>xs. d = \<lparr>action = ReorderTodos xs, caught = False\<rparr> \<and> xs \<noteq> [] \<and>
               (\<forall>i\<in>set xs. \<not> startsWith i ''temp-'' \<and> i \<in> todo_id ` set optimisticTodos)"
  proof
    fix d assume "d \<in> set (snd ?R)"
    with disp have "d \<in> set (persist_order (stableIds c))" by auto
    then have "d = \<lparr>action = ReorderTodos (stableIds c), caught = False\<rparr> \<and> stableIds c \<noteq> []"
      by (rule persist_order_cases)
    moreover have "\<forall>i\<in>set (stableIds c). \<not> startsWith i ''temp-'' \<and> i \<in> todo_id ` set optimisticTodos"
      using stableIds_set [of _ c] sub by blast
    ultimately show "\<exists>xs. d = \<lparr>action = ReorderTodos xs, caught = False\<rparr> \<and> xs \<noteq> [] \<and>
               (\<forall>i\<in>set xs. \<not> startsWith i ''temp-'' \<and> i \<in> todo_id ` set optimisticTodos)"
      by blast
  qed
  have alltemp: "(\<forall>t\<in>set optimisticTodos. startsWith (todo_id t) ''temp-'') \<longrightarrow> snd ?R = []"
  proof
    assume "\<forall>t\<in>set optimisticTodos. startsWith (todo_id t) ''temp-''"
    with sub have "\<forall>t\<in>set c. startsWith (todo_id t) ''temp-''" by blast
    then have "stableIds c = []" by (rule stableIds_all_temp)
    then have "persist_order (stableIds c) = []" by (simp add: persist_order_def)
    with disp show "snd ?R = []" by auto
  qed
  from run exact placed kept upper others none' found absent client alltemp show ?thesis
    by blast
qed

lemma not_temp_ids:
  "\<not> startsWith id_a ''temp-''" "\<not> startsWith id_b ''temp-''" "\<not> startsWith id_c ''temp-''"
  by (simp_all add: startsWith_def id_a_def id_b_def id_c_def)

theorem reorder_persists_durable_only_witness:
  "configured (server_of [item id_a 5, item id_b 10, item id_c 20] RpcMissing) \<and>
   reachable (server_of [item id_a 5, item id_b 10, item id_c 20] RpcMissing) \<and>
   distinct (filter uuid_test [id_b, ''temp-1'', id_a, id_c]) \<and>
   calls (snd (reorderTodos [id_b, ''temp-1'', id_a, id_c]
                 (server_of [item id_a 5, item id_b 10, item id_c 20] RpcMissing)))
     = [Rpc [id_b, id_a, id_c],
        UpdatePosition id_b 0, UpdatePosition id_a 1, UpdatePosition id_c 2] \<and>
   map todo_id (rows (snd (reorderTodos [id_b, ''temp-1'', id_a, id_c]
                 (server_of [item id_a 5, item id_b 10, item id_c 20] RpcMissing))))
     = [id_a, id_b, id_c] \<and>
   filter uuid_test [''temp-1'', ''temp-2''] = [] \<and>
   startsWith ''temp-1'' ''temp-'' \<and> startsWith ''temp-2'' ''temp-'' \<and>
   (\<exists>s'. reorderTodos [''temp-1'', ''temp-2'']
             (server_of [item id_a 5, item id_b 10, item id_c 20] RpcMissing) = (Inr Ok, s') \<and>
         calls s' = [] \<and> rows s' = [item id_a 5, item id_b 10, item id_c 20]) \<and>
   snd (reorderTodosById ''temp-1'' ''temp-2'' [item ''temp-1'' 0, item ''temp-2'' 1]) = [] \<and>
   id_b \<in> todo_id ` set [item ''temp-1'' 0, item id_a 5, item id_b 10] \<and>
   id_a \<in> todo_id ` set [item ''temp-1'' 0, item id_a 5, item id_b 10] \<and>
   fst (reorderTodosById id_b id_a [item ''temp-1'' 0, item id_a 5, item id_b 10])
     = [item ''temp-1'' 0, item id_b 10, item id_a 5] \<and>
   snd (reorderTodosById id_b id_a [item ''temp-1'' 0, item id_a 5, item id_b 10])
     = [\<lparr>action = ReorderTodos [id_b, id_a], caught = False\<rparr>]"
proof -
  define s where "s = server_of [item id_a 5, item id_b 10, item id_c 20] RpcMissing"
  let ?mixed = "[id_b, ''temp-1'', id_a, id_c]"
  let ?temps = "[''temp-1'', ''temp-2'']"
  let ?v = "[item ''temp-1'' 0, item ''temp-2'' 1]"
  let ?w = "[item ''temp-1'' 0, item id_a 5, item id_b 10]"
  have h1: "configured s" by (simp add: s_def configured_def server_of_def)
  have h2: "reachable s" by (simp add: s_def server_of_def)
  have h3: "distinct (filter uuid_test ?mixed)"
    unfolding filter_mixed by (simp add: id_a_def id_b_def id_c_def)
  have c0: "calls s = []" and r0: "rows s = [item id_a 5, item id_b 10, item id_c 20]"
    by (simp_all add: s_def server_of_def)
  have ko: "fst (db_rpc [id_b, id_a, id_c] s) \<noteq> Returned None"
    by (simp add: db_rpc_succeeds_iff s_def server_of_def)
  have up: "map (\<lambda>k. UpdatePosition ([id_b, id_a, id_c] ! k) (int k)) [0..<length [id_b, id_a, id_c]]
      = [UpdatePosition id_b 0, UpdatePosition id_a 1, UpdatePosition id_c 2]"
    by (simp add: upt_rec)
  from reorder_persists_durable_only [where ids = ?mixed and s = s and draggedId = id_b
      and targetId = id_a and optimisticTodos = ?w, unfolded filter_mixed up]
  obtain r1 s1 where run1: "reorderTodos ?mixed s = (r1, s1)"
    and ex1: "configured s \<longrightarrow> r1 = Inr Ok \<and>
         calls s1 = calls s @
           (if [id_b, id_a, id_c] = [] then []
            else if fst (db_rpc [id_b, id_a, id_c] s) = Returned None
              then [Rpc [id_b, id_a, id_c]]
              else [Rpc [id_b, id_a, id_c],
                    UpdatePosition id_b 0, UpdatePosition id_a 1, UpdatePosition id_c 2])"
    and kept1: "map todo_id (rows s1) = map todo_id (rows s)"
    and found: "id_b \<in> todo_id ` set ?w \<and> id_a \<in> todo_id ` set ?w \<longrightarrow>
         mset (fst (reorderTodosById id_b id_a ?w)) = mset ?w \<and>
         snd (reorderTodosById id_b id_a ?w) =
           (if filter (\<lambda>i. \<not> startsWith i ''temp-'')
                 (map todo_id (fst (reorderTodosById id_b id_a ?w))) = []
            then []
            else [\<lparr>action = ReorderTodos
                      (filter (\<lambda>i. \<not> startsWith i ''temp-'')
                         (map todo_id (fst (reorderTodosById id_b id_a ?w)))),
                    caught = False\<rparr>])"
    by blast
  from ex1 h1 ko c0 have calls1: "calls (snd (reorderTodos ?mixed s))
      = [Rpc [id_b, id_a, id_c], UpdatePosition id_b 0, UpdatePosition id_a 1, UpdatePosition id_c 2]"
    by (simp add: run1)
  from kept1 have ids1: "map todo_id (rows (snd (reorderTodos ?mixed s))) = [id_a, id_b, id_c]"
    by (simp add: run1 r0 item_def)
  have t0: "filter uuid_test ?temps = []" by (simp add: not_uuid_temp1 not_uuid_temp2)
  have t1: "\<forall>t\<in>set ?v. startsWith (todo_id t) ''temp-''"
    by (simp add: item_def startsWith_def)
  from reorder_persists_durable_only [where ids = ?temps and s = s and draggedId = "''temp-1''"
      and targetId = "''temp-2''" and optimisticTodos = ?v]
  obtain r2 s2 where run2: "reorderTodos ?temps s = (r2, s2)"
    and ok2: "configured s \<longrightarrow> r2 = Inr Ok \<and>
         calls s2 = calls s @
           (if filter uuid_test ?temps = [] then []
            else if fst (db_rpc (filter uuid_test ?temps) s) = Returned None
              then [Rpc (filter uuid_test ?temps)]
              else Rpc (filter uuid_test ?temps) #
                   map (\<lambda>k. UpdatePosition (filter uuid_test ?temps ! k) (int k))
                       [0..<length (filter uuid_test ?temps)])"
    and none2: "filter uuid_test ?temps = [] \<longrightarrow> calls s2 = calls s \<and> rows s2 = rows s"
    and all2: "(\<forall>t\<in>set ?v. startsWith (todo_id t) ''temp-'') \<longrightarrow>
          snd (reorderTodosById ''temp-1'' ''temp-2'' ?v) = []"
    by blast
  from ok2 h1 none2 t0 run2 have part2:
    "\<exists>s'. reorderTodos ?temps s = (Inr Ok, s') \<and> calls s' = [] \<and>
          rows s' = [item id_a 5, item id_b 10, item id_c 20]"
    by (simp add: c0 r0)
  from all2 t1 have part3: "snd (reorderTodosById ''temp-1'' ''temp-2'' ?v) = []" by blast
  have in1: "id_b \<in> todo_id ` set ?w" and in2: "id_a \<in> todo_id ` set ?w"
    by (simp_all add: item_def)
  have nb: "''temp-1'' \<noteq> id_b" "''temp-1'' \<noteq> id_a" "id_a \<noteq> id_b"
    by (simp_all add: id_a_def id_b_def)
  have f: "fst (reorderTodosById id_b id_a ?w) = [item ''temp-1'' 0, item id_b 10, item id_a 5]"
    using nb by (simp add: reorderTodosById_def splice_out_def splice_in_def Let_def item_def)
  have ids: "filter (\<lambda>i. \<not> startsWith i ''temp-'')
       (map todo_id [item ''temp-1'' 0, item id_b 10, item id_a 5]) = [id_b, id_a]"
    by (simp add: item_def startsWith_temp1 not_temp_ids)
  from found in1 in2 have part4: "snd (reorderTodosById id_b id_a ?w)
      = [\<lparr>action = ReorderTodos [id_b, id_a], caught = False\<rparr>]"
    unfolding f ids by simp
  from h1 h2 h3 calls1 ids1 t0 startsWith_temp1 startsWith_temp2 part2 part3 in1 in2 f part4
  show ?thesis unfolding s_def by blast
qed

subsection \<open>Reorder, then list\<close>

lemma reorderTodos_reachable:
  assumes "configured s" and "reachable s"
  shows "\<exists>s'. reorderTodos ids s = (Inr Ok, s') \<and>
            rows s' = reorder_sql (filter uuid_test ids) (rows s) \<and>
            configured s' \<and> reachable s'"
proof (cases "filter uuid_test ids = []")
  case True
  then show ?thesis using assms
    by (simp add: reorderTodos_none reorder_sql_def configured_def)
next
  case False
  note nf = this
  show ?thesis
  proof (cases "rpc s = RpcWorks")
    case True
    then show ?thesis using assms nf by (simp add: reorderTodos_rpc configured_def)
  next
    case False
    then show ?thesis using assms nf by (simp add: reorderTodos_fallback configured_def)
  qed
qed

lemma map_index_of: "distinct ids \<Longrightarrow> map (\<lambda>x. index_of x ids) ids = [0..<length ids]"
  by (rule nth_equalityI) (simp_all add: index_of_nth)

lemma inj_on_index_of: "inj_on (\<lambda>x. index_of x ids) (set ids)"
proof (rule inj_onI)
  fix x y assume "x \<in> set ids" "y \<in> set ids" "index_of x ids = index_of y ids"
  then show "x = y" by (metis nth_index_of)
qed

lemma sorted_by_index_eq:
  assumes "distinct ids" and "mset xs = mset ids" and "sorted (map (\<lambda>x. index_of x ids) xs)"
  shows "xs = ids"
proof -
  have "sort_key (\<lambda>x. index_of x ids) ids = xs"
    using assms(2) inj_on_index_of assms(3) by (intro sort_key_inj_key_eq) simp_all
  moreover have "sort_key (\<lambda>x. index_of x ids) ids = ids"
    using inj_on_index_of by (intro sort_key_inj_key_eq) (simp_all add: map_index_of assms(1))
  ultimately show ?thesis by simp
qed

lemma listing_after_reorder:
  assumes "distinct ids" and "distinct (map todo_id ts)" and "set ids = todo_id ` set ts"
  shows "map todo_id (sort_key position (reorder_sql ids ts)) = ids"
    and "map position (sort_key position (reorder_sql ids ts)) = map int [0..<length ids]"
proof -
  let ?h = "\<lambda>t. t\<lparr>position := int (index_of (todo_id t) ids)\<rparr>"
  let ?L = "sort_key position (reorder_sql ids ts)"
  have ts': "reorder_sql ids ts = map ?h ts"
    using assms(3) by (simp add: reorder_sql_distinct [OF assms(1)])
  have pos: "position t = int (index_of (todo_id t) ids)" if "t \<in> set ?L" for t
    using that by (auto simp: ts')
  have "mset ?L = mset (map ?h ts)" by (simp add: ts')
  then have "image_mset todo_id (mset ?L) = image_mset todo_id (mset (map ?h ts))"
    by (rule arg_cong)
  then have a: "mset (map todo_id ?L) = mset (map todo_id (map ?h ts))"
    by (simp only: mset_map)
  have b: "map todo_id (map ?h ts) = map todo_id ts" by simp
  have c: "mset (map todo_id ts) = mset ids"
    using assms by (subst set_eq_iff_mset_eq_distinct [symmetric]) simp_all
  from a have m: "mset (map todo_id ?L) = mset ids" unfolding b c .
  have e: "map position ?L = map int (map (\<lambda>x. index_of x ids) (map todo_id ?L))"
    using pos by (simp add: comp_def)
  have "sorted (map position ?L)" by (rule sorted_sort_key)
  then have "sorted (map int (map (\<lambda>x. index_of x ids) (map todo_id ?L)))"
    unfolding e .
  then have srt: "sorted (map (\<lambda>x. index_of x ids) (map todo_id ?L))"
    by (simp add: sorted_map sorted_wrt_map)
  show 1: "map todo_id ?L = ids"
    using assms(1) m srt by (rule sorted_by_index_eq)
  show "map position ?L = map int [0..<length ids]"
    unfolding e 1 by (simp add: map_index_of [OF assms(1)])
qed

text \<open>
  C6. Let the identifiers of the table be distinct (the primary key) and \<open>ids\<close> be a list
  of durable identifiers without repetition that covers them. After \<^verbatim>\<open>reorderTodos ids\<close>
  on a configured server with a reachable store, \<^verbatim>\<open>fetchTodos\<close> lists the items in
  exactly the order of \<open>ids\<close>, with the positions \<open>0, \<dots>, N - 1\<close> and every other field as
  before. This holds on the path of the single call and on the fallback path.
\<close>

theorem reorder_then_list_round_trip:
  assumes "configured s" and "reachable s"
    and "distinct ids" and "\<forall>i\<in>set ids. uuid_test i"
    and "distinct (map todo_id (rows s))" and "set ids = todo_id ` set (rows s)"
  shows "\<exists>s' s'' listing.
      reorderTodos ids s = (Inr Ok, s') \<and> fetchTodos s' = (Inr listing, s'') \<and>
      map todo_id listing = ids \<and> map position listing = map int [0..<length ids] \<and>
      (\<forall>t\<in>set listing. \<exists>u\<in>set (rows s). t = u\<lparr>position := position t\<rparr>)"
proof -
  have f: "filter uuid_test ids = ids" using assms(4) by simp
  obtain s' where run: "reorderTodos ids s = (Inr Ok, s')"
    and rs: "rows s' = reorder_sql ids (rows s)" and c: "configured s'" and re: "reachable s'"
    using reorderTodos_reachable [OF assms(1,2), of ids] by (auto simp: f)
  define listing where "listing = sort_key position (reorder_sql ids (rows s))"
  have fetch: "fetchTodos s' = (Inr listing, sent Select (s'\<lparr>cached := True\<rparr>))"
    using c re by (simp add: fetchTodos_ok rs listing_def)
  have ids: "map todo_id listing = ids" and ps: "map position listing = map int [0..<length ids]"
    unfolding listing_def by (rule listing_after_reorder [OF assms(3,5,6)])+
  have same: "\<forall>t\<in>set listing. \<exists>u\<in>set (rows s). t = u\<lparr>position := position t\<rparr>"
    using assms(6) by (auto simp: listing_def reorder_sql_distinct [OF assms(3)])
  from run fetch ids ps same show ?thesis by blast
qed


theorem reorder_then_list_round_trip_witness:
  "configured (server_of [item id_a 5, item id_b 10, item id_c 20] RpcMissing) \<and>
   reachable (server_of [item id_a 5, item id_b 10, item id_c 20] RpcMissing) \<and>
   distinct [id_b, id_a, id_c] \<and> uuid_test id_b \<and> uuid_test id_a \<and> uuid_test id_c \<and>
   distinct (map todo_id (rows (server_of [item id_a 5, item id_b 10, item id_c 20] RpcMissing))) \<and>
   set [id_b, id_a, id_c]
     = todo_id ` set (rows (server_of [item id_a 5, item id_b 10, item id_c 20] RpcMissing)) \<and>
   (\<exists>s' s'' listing.
      reorderTodos [id_b, id_a, id_c] (server_of [item id_a 5, item id_b 10, item id_c 20] RpcMissing)
        = (Inr Ok, s') \<and>
      fetchTodos s' = (Inr listing, s'') \<and>
      map todo_id listing = [id_b, id_a, id_c] \<and> map position listing = [0, 1, 2])"
proof -
  let ?s = "server_of [item id_a 5, item id_b 10, item id_c 20] RpcMissing"
  let ?ids = "[id_b, id_a, id_c]"
  have h1: "configured ?s" by (simp add: configured_def server_of_def)
  have h2: "reachable ?s" by (simp add: server_of_def)
  have h3: "distinct ?ids" by (simp add: id_a_def id_b_def id_c_def)
  have h4: "\<forall>i\<in>set ?ids. uuid_test i" by (simp add: uuid_a uuid_b uuid_c)
  have h5: "distinct (map todo_id (rows ?s))"
    by (simp add: server_of_def item_def id_a_def id_b_def id_c_def)
  have h6: "set ?ids = todo_id ` set (rows ?s)"
    by (auto simp: server_of_def item_def)
  from reorder_then_list_round_trip [OF h1 h2 h3 h4 h5 h6]
  have "\<exists>s' s'' listing.
      reorderTodos ?ids ?s = (Inr Ok, s') \<and> fetchTodos s' = (Inr listing, s'') \<and>
      map todo_id listing = [id_b, id_a, id_c] \<and> map position listing = [0, 1, 2]"
    by (auto simp: upt_rec)
  with h1 h2 h3 h5 h6 uuid_a uuid_b uuid_c show ?thesis by blast
qed

text \<open>
  The per-item writes are awaited together, so the store may apply them in any order.
  For distinct identifiers the order does not matter: every arrangement of the writes
  leaves the rows that the sequential model computes.
\<close>

lemma set_position_commute:
  "i \<noteq> j \<Longrightarrow> set_position i p (set_position j q ts) = set_position j q (set_position i p ts)"
  by (induction ts) (simp_all add: set_position_def)

lemma per_item_writes_any_order:
  assumes "distinct ids" and "mset ps = mset (enumerate 0 ids)"
  shows "fold (\<lambda>(k, i). set_position i (int k)) ps ts = reorder_sql ids ts"
proof -
  let ?f = "\<lambda>(k, i). set_position i (int k)"
  have comm: "?f x \<circ> ?f y = ?f y \<circ> ?f x"
    if "x \<in> set (enumerate 0 ids)" and "y \<in> set (enumerate 0 ids)" for x y
  proof -
    obtain k i where x: "x = (k, i)" by (cases x)
    obtain l j where y: "y = (l, j)" by (cases y)
    from that x y have kx: "k < length ids" "i = ids ! k" and ly: "l < length ids" "j = ids ! l"
      by (auto simp: in_set_enumerate_eq)
    show ?thesis
    proof (cases "i = j")
      case True
      with kx ly assms(1) have "k = l" by (simp add: nth_eq_iff_index_eq)
      with True x y show ?thesis by simp
    next
      case False
      then show ?thesis by (auto simp: x y fun_eq_iff set_position_commute)
    qed
  qed
  have "fold ?f (enumerate 0 ids) = fold ?f ps"
    using comm assms(2) by (intro fold_multiset_equiv) simp_all
  then show ?thesis by (simp add: reorder_sql_def)
qed

section \<open>Placeholder identifiers\<close>

lemma digit_char_digit: "d < 10 \<Longrightarrow> digit_char d \<in> set ''0123456789''"
  unfolding digit_char_def by (rule nth_mem) simp

lemma show_nat_digits: "show_nat n \<noteq> [] \<and> (\<forall>c\<in>set (show_nat n). c \<in> set ''0123456789'')"
proof (induction n rule: show_nat.induct)
  case (1 n)
  show ?case
  proof (cases "n < 10")
    case True
    then show ?thesis
      using digit_char_digit [of n] by (subst (1 2) show_nat.simps) simp
  next
    case False
    have "n mod 10 < 10" by simp
    then have "digit_char (n mod 10) \<in> set ''0123456789''" by (rule digit_char_digit)
    with False 1 show ?thesis
      by (subst (1 2) show_nat.simps) auto
  qed
qed

lemma uuid_pattern_head: "uuid_pattern = Hex # tl uuid_pattern"
  by code_simp

lemma uuid_test_first: "uuid_test (c # cs) \<Longrightarrow> in_cls Hex c"
  unfolding uuid_test_def by (subst (asm) uuid_pattern_head) simp

lemma not_uuid_temp: "\<not> uuid_test (''temp-'' @ ds)"
proof
  assume "uuid_test (''temp-'' @ ds)"
  then have "uuid_test (CHR ''t'' # (''emp-'' @ ds))" by simp
  then have "in_cls Hex CHR ''t''" by (rule uuid_test_first)
  then show False by simp
qed

lemma startsWith_append: "startsWith (p @ ds) p"
  by (simp add: startsWith_def)

lemma temp_id_facts:
  "\<not> uuid_test (temp_id now)" "startsWith (temp_id now) ''temp-''"
  unfolding temp_id_def by (rule not_uuid_temp, rule startsWith_append)

lemma handleTouchEnd_dispatch:
  "handleTouchEnd touchStart optimisticTodos = Some (v, ds) \<Longrightarrow>
   ds = [] \<or> (\<exists>c. ds = persist_order (stableIds c))"
  by (auto simp: handleTouchEnd_def Let_def split: option.splits if_splits prod.splits list.splits)

lemma persist_order_no_temp:
  assumes "d \<in> set (persist_order (stableIds c))" and "action d = ReorderTodos xs"
  shows "temp_id now \<notin> set xs"
proof -
  from assms(1) have "d = \<lparr>action = ReorderTodos (stableIds c), caught = False\<rparr>"
    by (simp add: persist_order_cases)
  with assms(2) have "xs = stableIds c" by simp
  then show ?thesis using stableIds_set [of "temp_id now" c] temp_id_facts(2) by blast
qed

lemma reorderTodos_calls:
  "\<exists>r s' new. reorderTodos ids s = (r, s') \<and> calls s' = calls s @ new \<and>
      (\<forall>c\<in>set new. c = Rpc (filter uuid_test ids) \<or>
                     (\<exists>i p. c = UpdatePosition i p \<and> i \<in> set ids \<and> uuid_test i))"
proof -
  obtain r s' new where run: "reorderTodos ids s = (r, s')" and cs: "calls s' = calls s @ new"
    and shape: "new = [] \<or> new = [Rpc (filter uuid_test ids)] \<or>
       new = Rpc (filter uuid_test ids) # uploads (filter uuid_test ids)"
    using reorderTodos_summary [of ids s] by blast
  have "\<forall>c\<in>set new. c = Rpc (filter uuid_test ids) \<or>
                     (\<exists>i p. c = UpdatePosition i p \<and> i \<in> set ids \<and> uuid_test i)"
  proof
    fix c assume "c \<in> set new"
    with shape have "c = Rpc (filter uuid_test ids) \<or> c \<in> set (uploads (filter uuid_test ids))"
      by auto
    then show "c = Rpc (filter uuid_test ids) \<or>
                     (\<exists>i p. c = UpdatePosition i p \<and> i \<in> set ids \<and> uuid_test i)"
      using uploads_set [of c "filter uuid_test ids"] by auto
  qed
  with run cs show ?thesis by blast
qed

lemma temp_id_example: "temp_id 1700000000000 = ''temp-1700000000000''"
  by (simp add: temp_id_def show_nat.simps digit_char_def)

text \<open>
  C10. Every identifier that \<^verbatim>\<open>onAdd\<close> gives a placeholder is \<^verbatim>\<open>temp-\<close> followed by
  one or more decimal digits. Such a string does not match the regular expression of
  the server (its first character is not a hexadecimal digit) and it has the prefix the
  client tests, so both filters drop it: it is in no list that \<^verbatim>\<open>reorderTodosById\<close> or
  \<^verbatim>\<open>handleTouchEnd\<close> sends to \<^verbatim>\<open>reorderTodos\<close>, and whatever list \<^verbatim>\<open>reorderTodos\<close>
  is given, no request it sends to the store names it.
\<close>

theorem placeholder_never_reaches_store:
  "(\<exists>ds. temp_id now = ''temp-'' @ ds \<and> ds \<noteq> [] \<and> (\<forall>c\<in>set ds. c \<in> set ''0123456789'')) \<and>
   (form_text formData \<noteq> [] \<longrightarrow>
      map todo_id (fst (onAdd formData now optimisticTodos)) = temp_id now # map todo_id optimisticTodos) \<and>
   \<not> uuid_test (temp_id now) \<and> startsWith (temp_id now) ''temp-'' \<and>
   temp_id now \<notin> set (stableIds current) \<and>
   temp_id now \<notin> set (filter uuid_test ids) \<and>
   (\<forall>d\<in>set (snd (reorderTodosById draggedId targetId optimisticTodos)).
      \<forall>xs. action d = ReorderTodos xs \<longrightarrow> temp_id now \<notin> set xs) \<and>
   (\<forall>v ds. handleTouchEnd touchStart optimisticTodos = Some (v, ds) \<longrightarrow>
      (\<forall>d\<in>set ds. \<forall>xs. action d = ReorderTodos xs \<longrightarrow> temp_id now \<notin> set xs)) \<and>
   (\<exists>new. calls (snd (reorderTodos ids s)) = calls s @ new \<and>
      (\<forall>c\<in>set new. (\<forall>p. c \<noteq> UpdatePosition (temp_id now) p) \<and>
                     (\<forall>xs. c = Rpc xs \<longrightarrow> temp_id now \<notin> set xs)))"
proof -
  have form: "\<exists>ds. temp_id now = ''temp-'' @ ds \<and> ds \<noteq> [] \<and> (\<forall>c\<in>set ds. c \<in> set ''0123456789'')"
    using show_nat_digits [of now] unfolding temp_id_def by blast
  have add: "form_text formData \<noteq> [] \<longrightarrow>
      map todo_id (fst (onAdd formData now optimisticTodos)) = temp_id now # map todo_id optimisticTodos"
    by (simp add: onAdd_ok)
  have nu: "\<not> uuid_test (temp_id now)" and sw: "startsWith (temp_id now) ''temp-''"
    by (rule temp_id_facts)+
  have st: "temp_id now \<notin> set (stableIds current)"
    using stableIds_set [of "temp_id now" current] sw by blast
  have fl: "temp_id now \<notin> set (filter uuid_test ids)"
    using nu by simp
  have drop: "\<forall>d\<in>set (snd (reorderTodosById draggedId targetId optimisticTodos)).
      \<forall>xs. action d = ReorderTodos xs \<longrightarrow> temp_id now \<notin> set xs"
  proof (intro ballI allI impI)
    fix d xs
    assume d: "d \<in> set (snd (reorderTodosById draggedId targetId optimisticTodos))"
      and a: "action d = ReorderTodos xs"
    from reorderTodosById_dispatch [of optimisticTodos draggedId targetId] d
    obtain c where "d \<in> set (persist_order (stableIds c))" by auto
    then show "temp_id now \<notin> set xs" using a by (rule persist_order_no_temp)
  qed
  have touch: "\<forall>v ds. handleTouchEnd touchStart optimisticTodos = Some (v, ds) \<longrightarrow>
      (\<forall>d\<in>set ds. \<forall>xs. action d = ReorderTodos xs \<longrightarrow> temp_id now \<notin> set xs)"
  proof (intro ballI allI impI)
    fix v ds d xs
    assume h: "handleTouchEnd touchStart optimisticTodos = Some (v, ds)"
      and d: "d \<in> set ds" and a: "action d = ReorderTodos xs"
    from handleTouchEnd_dispatch [OF h] d
    obtain c where "d \<in> set (persist_order (stableIds c))" by auto
    then show "temp_id now \<notin> set xs" using a by (rule persist_order_no_temp)
  qed
  obtain r s' new where run: "reorderTodos ids s = (r, s')" and cs: "calls s' = calls s @ new"
    and only: "\<forall>c\<in>set new. c = Rpc (filter uuid_test ids) \<or>
                     (\<exists>i p. c = UpdatePosition i p \<and> i \<in> set ids \<and> uuid_test i)"
    using reorderTodos_calls [of ids s] by blast
  have "\<forall>c\<in>set new. (\<forall>p. c \<noteq> UpdatePosition (temp_id now) p) \<and>
                     (\<forall>xs. c = Rpc xs \<longrightarrow> temp_id now \<notin> set xs)"
    using only nu fl by fastforce
  with run cs have server: "\<exists>new. calls (snd (reorderTodos ids s)) = calls s @ new \<and>
      (\<forall>c\<in>set new. (\<forall>p. c \<noteq> UpdatePosition (temp_id now) p) \<and>
                     (\<forall>xs. c = Rpc xs \<longrightarrow> temp_id now \<notin> set xs))"
    by auto
  from form add nu sw st fl drop touch server show ?thesis by blast
qed


theorem placeholder_never_reaches_store_witness:
  "form_text (FString ''buy milk'') \<noteq> [] \<and>
   map todo_id (fst (onAdd (FString ''buy milk'') 1700000000000 [item id_a 5]))
     = [''temp-1700000000000'', id_a] \<and>
   \<not> uuid_test ''temp-1700000000000'' \<and> startsWith ''temp-1700000000000'' ''temp-'' \<and>
   ''temp-1700000000000'' \<notin> set (stableIds [item ''temp-1700000000000'' 4, item id_a 5]) \<and>
   ''temp-1700000000000'' \<notin> set (filter uuid_test [''temp-1700000000000'', id_a])"
proof -
  have h: "form_text (FString ''buy milk'') \<noteq> []" by (simp add: trim_def is_space_def)
  have i: "map todo_id [item id_a 5] = [id_a]" by (simp add: item_def)
  from placeholder_never_reaches_store [of 1700000000000 "FString ''buy milk''" "[item id_a 5]"
      "[item ''temp-1700000000000'' 4, item id_a 5]" "[''temp-1700000000000'', id_a]"] h
  show ?thesis unfolding temp_id_example i by blast
qed

section \<open>Failures of the durable path\<close>

text \<open>
  A toggle of an identifier that has no row makes \<^verbatim>\<open>toggleTodo\<close> throw the error of
  \<^verbatim>\<open>.single()\<close>. Only \<^verbatim>\<open>onAdd\<close> attaches \<^verbatim>\<open>.catch\<close> to its call; the call of
  \<^verbatim>\<open>onToggle\<close> has no handler, so its rejection is taken by nothing.
\<close>

lemma toggleTodo_absent:
  assumes "configured s" and "reachable s" and "i \<notin> todo_id ` set (rows s)"
  shows "toggleTodo i s = (Inl NotFoundError, sent (SelectCompleted i) (s\<lparr>cached := True\<rparr>))"
proof -
  have "filter (\<lambda>t. todo_id t = i) (rows s) = []"
    using assms(3) by (auto simp: filter_empty_conv)
  then show ?thesis
    using assms(1,2) by (simp add: toggleTodo_def getSupabase_configured db_select_completed_def sent_def)
qed

lemma settle_caught: "caught d \<Longrightarrow> settle d r = Quiet"
  by (simp add: settle_def split: sum.splits)

lemma settle_uncaught: "\<not> caught d \<Longrightarrow> settle d (Inl e) = UnhandledRejection e"
  by (simp add: settle_def)

lemma onAdd_settles_quietly:
  "run_all (snd (onAdd formData now optimisticTodos)) newId s = (es, s') \<Longrightarrow> set es \<subseteq> {Quiet}"
  by (cases "form_text formData = []")
     (auto simp: onAdd_blank onAdd_ok settle_caught split: prod.splits)

lemma onToggle_rejection_unhandled:
  "toggleTodo i s = (Inl e, s') \<Longrightarrow>
   run_all (snd (onToggle i optimisticTodos)) newId s = ([UnhandledRejection e], s')"
  by (simp add: onToggle_def settle_def)

text \<open>
  C2. Toggle, then delete, of the one item of the list, the delete reaching the store
  first. The local list keeps the toggle and the row is deleted, but the rejection of
  \<^verbatim>\<open>toggleTodo\<close> (no row with that identifier) is not caught where the call is made:
  \<^verbatim>\<open>onToggle\<close> calls \<^verbatim>\<open>toggleTodo(id)\<close> without \<^verbatim>\<open>.catch\<close>, unlike \<^verbatim>\<open>onAdd\<close>.
\<close>

theorem toggle_after_delete_rejection_unhandled:
  "fst (onToggle id_a [item id_a 5]) = [(item id_a 5)\<lparr>completed := True\<rparr>] \<and>
   snd (onToggle id_a [item id_a 5]) = [\<lparr>action = ToggleTodo id_a, caught = False\<rparr>] \<and>
   snd (onDelete id_a [item id_a 5]) = [\<lparr>action = DeleteTodo id_a, caught = False\<rparr>] \<and>
   fst (run_all (snd (onDelete id_a [item id_a 5]) @ snd (onToggle id_a [item id_a 5])) id_c
          (server_of [item id_a 5] RpcWorks))
     = [Quiet, UnhandledRejection NotFoundError] \<and>
   rows (snd (run_all (snd (onDelete id_a [item id_a 5]) @ snd (onToggle id_a [item id_a 5])) id_c
          (server_of [item id_a 5] RpcWorks))) = []"
  by (simp add: onToggle_def onDelete_def item_def server_of_def deleteTodo_def toggleTodo_def
      getSupabase_def db_delete_def db_select_completed_def sent_def settle_def)

end
